theory Spec2Isabelle
  imports Main "HOL-Library.Word" "HOL-Library.Code_Target_Numeral"
begin

unbundle bit_operations_syntax

section \<open>Strings\<close>

text \<open>
  A Python \<open>str\<close> is modelled by its UTF-8 encoding, a list of bytes (\<open>char\<close> is a byte):
  concatenation and \<open>join\<close> commute with the encoding, and \<open>book_id.encode()\<close> is then
  the identity. The three non-ASCII literals of \<open>import_books_enhanced.py\<close> are written
  out byte by byte.
\<close>

definition category_prefix :: string where
  \<comment> \<open>the literal in front of \<open>{', '.join(tags)}\<close>: U+5206 U+985E U+FF1A\<close>
  "category_prefix =
     [CHR 0xE5, CHR 0x88, CHR 0x86, CHR 0xE9, CHR 0xA1, CHR 0x9E, CHR 0xEF, CHR 0xBC, CHR 0x9A]"

definition title_prefix :: string where
  \<comment> \<open>the literal in front of \<open>{title}\<close>: U+66F8 U+540D U+FF1A\<close>
  "title_prefix =
     [CHR 0xE6, CHR 0x9B, CHR 0xB8, CHR 0xE5, CHR 0x90, CHR 0x8D, CHR 0xEF, CHR 0xBC, CHR 0x9A]"

definition default_language :: string where
  \<comment> \<open>the default of \<open>book.get("language", ...)\<close>: U+4E2D U+6587\<close>
  "default_language = [CHR 0xE4, CHR 0xB8, CHR 0xAD, CHR 0xE6, CHR 0x96, CHR 0x87]"

fun join :: "string \<Rightarrow> string list \<Rightarrow> string" where
  "join sep [] = []"
| "join sep [x] = x"
| "join sep (x # y # ys) = x @ sep @ join sep (y # ys)"

definition digit_char :: "nat \<Rightarrow> char" where
  "digit_char d = ''0123456789'' ! d"

fun str_of_nat :: "nat \<Rightarrow> string" where
  "str_of_nat n = (if n < 10 then [digit_char n] else str_of_nat (n div 10) @ [digit_char (n mod 10)])"

declare str_of_nat.simps [simp del]

section \<open>hashlib.md5\<close>

text \<open>
  \<open>book_id_to_uuid\<close> calls \<open>hashlib.md5(...).hexdigest()\<close> of the Python standard library.
  It is the MD5 function of RFC 1321: the message is padded to a multiple of 64 bytes, each
  block of sixteen little-endian 32-bit words goes through 64 steps on four 32-bit registers,
  and the registers are rendered as 16 bytes, 32 lower-case hexadecimal digits.
\<close>

type_synonym u32 = "32 word"

definition md5_K :: "u32 list" where
  "md5_K = [
      0xd76aa478, 0xe8c7b756, 0x242070db, 0xc1bdceee, 0xf57c0faf, 0x4787c62a, 0xa8304613, 0xfd469501,
      0x698098d8, 0x8b44f7af, 0xffff5bb1, 0x895cd7be, 0x6b901122, 0xfd987193, 0xa679438e, 0x49b40821,
      0xf61e2562, 0xc040b340, 0x265e5a51, 0xe9b6c7aa, 0xd62f105d, 0x02441453, 0xd8a1e681, 0xe7d3fbc8,
      0x21e1cde6, 0xc33707d6, 0xf4d50d87, 0x455a14ed, 0xa9e3e905, 0xfcefa3f8, 0x676f02d9, 0x8d2a4c8a,
      0xfffa3942, 0x8771f681, 0x6d9d6122, 0xfde5380c, 0xa4beea44, 0x4bdecfa9, 0xf6bb4b60, 0xbebfbc70,
      0x289b7ec6, 0xeaa127fa, 0xd4ef3085, 0x04881d05, 0xd9d4d039, 0xe6db99e5, 0x1fa27cf8, 0xc4ac5665,
      0xf4292244, 0x432aff97, 0xab9423a7, 0xfc93a039, 0x655b59c3, 0x8f0ccc92, 0xffeff47d, 0x85845dd1,
      0x6fa87e4f, 0xfe2ce6e0, 0xa3014314, 0x4e0811a1, 0xf7537e82, 0xbd3af235, 0x2ad7d2bb, 0xeb86d391]"

definition md5_S :: "nat list" where
  "md5_S = [
      7, 12, 17, 22, 7, 12, 17, 22, 7, 12, 17, 22, 7, 12, 17, 22,
      5, 9, 14, 20, 5, 9, 14, 20, 5, 9, 14, 20, 5, 9, 14, 20,
      4, 11, 16, 23, 4, 11, 16, 23, 4, 11, 16, 23, 4, 11, 16, 23,
      6, 10, 15, 21, 6, 10, 15, 21, 6, 10, 15, 21, 6, 10, 15, 21]"

definition rotl32 :: "u32 \<Rightarrow> nat \<Rightarrow> u32" where
  "rotl32 x n = (push_bit n x) OR (drop_bit (32 - n) x)"

definition md5_F :: "nat \<Rightarrow> u32 \<Rightarrow> u32 \<Rightarrow> u32 \<Rightarrow> u32" where
  "md5_F i b c d =
     (if i < 16 then (b AND c) OR (NOT b AND d)
      else if i < 32 then (d AND b) OR (NOT d AND c)
      else if i < 48 then b XOR c XOR d
      else c XOR (b OR NOT d))"

definition md5_g :: "nat \<Rightarrow> nat" where
  "md5_g i =
     (if i < 16 then i
      else if i < 32 then (5 * i + 1) mod 16
      else if i < 48 then (3 * i + 5) mod 16
      else (7 * i) mod 16)"

type_synonym md5_state = "u32 \<times> u32 \<times> u32 \<times> u32"

definition md5_step :: "u32 list \<Rightarrow> md5_state \<Rightarrow> nat \<Rightarrow> md5_state" where
  "md5_step m st i =
     (case st of (a, b, c, d) \<Rightarrow>
        (d, b + rotl32 (md5_F i b c d + a + md5_K ! i + m ! md5_g i) (md5_S ! i), b, c))"

definition le32 :: "char list \<Rightarrow> u32" where
  "le32 bs = foldr (\<lambda>c w. of_char c + push_bit 8 w) bs 0"

fun chunks :: "nat \<Rightarrow> 'a list \<Rightarrow> 'a list list" where
  "chunks n xs = (if n = 0 \<or> xs = [] then [] else take n xs # chunks n (drop n xs))"

declare chunks.simps [simp del]

definition md5_block :: "md5_state \<Rightarrow> char list \<Rightarrow> md5_state" where
  "md5_block st blk =
     (let m = map le32 (chunks 4 blk) in
      case (st, foldl (md5_step m) st [0..<64]) of
        ((a0, b0, c0, d0), (a, b, c, d)) \<Rightarrow> (a0 + a, b0 + b, c0 + c, d0 + d))"

definition le_bytes :: "nat \<Rightarrow> nat \<Rightarrow> char list" where
  "le_bytes k n = map (\<lambda>i. char_of (n div 256 ^ i)) [0..<k]"

definition md5_pad :: "char list \<Rightarrow> char list" where
  "md5_pad msg = msg @ [CHR 0x80] @ replicate ((55 + 64 - length msg mod 64) mod 64) (CHR 0x00)
                 @ le_bytes 8 (8 * length msg mod 2 ^ 64)"

definition md5_init :: md5_state where
  "md5_init = (0x67452301, 0xefcdab89, 0x98badcfe, 0x10325476)"

definition hexdigits :: string where
  "hexdigits = ''0123456789abcdef''"

definition hex_digit :: "nat \<Rightarrow> char" where
  "hex_digit d = hexdigits ! d"

definition hex_byte :: "char \<Rightarrow> string" where
  "hex_byte c = [hex_digit (of_char c div 16), hex_digit (of_char c mod 16)]"

definition md5_digest :: "char list \<Rightarrow> char list" where
  "md5_digest msg =
     (case foldl md5_block md5_init (chunks 64 (md5_pad msg)) of
        (a, b, c, d) \<Rightarrow> concat (map (\<lambda>w. le_bytes 4 (unat w)) [a, b, c, d]))"

definition md5_hexdigest :: "string \<Rightarrow> string" where
  "md5_hexdigest msg = concat (map hex_byte (md5_digest msg))"

section \<open>IdentityMapper: \<open>book_id_to_uuid\<close>\<close>

text \<open>
  The method of \<open>BookImporter\<close> (lines 39-44) and the module function of
  \<open>import_cleaned_books_1000.py\<close> (lines 20-28) have the same body. Neither reads anything
  but the argument: the method never touches \<open>self\<close>. The slices \<open>h[a:b]\<close> are
  \<open>take (b - a) (drop a h)\<close>.
\<close>

definition py_slice :: "nat \<Rightarrow> nat \<Rightarrow> 'a list \<Rightarrow> 'a list" where
  "py_slice a b xs = take (b - a) (drop a xs)"

definition book_id_to_uuid :: "string \<Rightarrow> string" where
  "book_id_to_uuid book_id =
     (let hash_hex = md5_hexdigest book_id
      in take 8 hash_hex @ ''-'' @ py_slice 8 12 hash_hex @ ''-'' @ py_slice 12 16 hash_hex @ ''-''
         @ py_slice 16 20 hash_hex @ ''-'' @ py_slice 20 32 hash_hex)"

section \<open>Book records and points\<close>

text \<open>
  A book is a JSON object of the input file. Every field is read with
  \<open>book.get(key, default)\<close>, so every field may be absent: \<open>None\<close> is the absent key.
  Present fields have the types of the spec's BookRecord (strings, and a list of strings
  for the tags).
\<close>

record book =
  book_id :: "string option"
  title :: "string option"
  author :: "string option"
  description :: "string option"
  tags :: "string list option"
  language :: "string option"
  cover_url :: "string option"

definition get_or :: "'a option \<Rightarrow> 'a \<Rightarrow> 'a" where
  \<comment> \<open>\<open>dict.get(key, default)\<close>\<close>
  "get_or field dflt = (case field of None \<Rightarrow> dflt | Some v \<Rightarrow> v)"

text \<open>
  A Python float is a 64-bit IEEE value; no function here computes with one, so a vector
  is a list of 64-bit words. A point identifier of the store is a UUID string or an
  unsigned integer; the importer only makes UUID strings. A payload is a dictionary from
  keys to JSON values, an association list in insertion order.
\<close>

type_synonym pyfloat = "64 word"
type_synonym vector = "pyfloat list"

datatype point_id = Uuid string | Num nat

datatype jvalue = Str string | Strs "string list"

record point =
  pid :: point_id
  pvector :: vector
  payload :: "(string \<times> jvalue) list"

section \<open>The world outside the importer\<close>

text \<open>
  The embedding service (Ollama) and the vector store (Qdrant) are not code of the
  repository. Every request the importer makes, and every \<open>time.sleep\<close>, is appended to a
  list of events, oldest first (durations in milliseconds). What a service answers is
  chosen by an environment, a function of the number of events so far, so that a service
  may answer the same request differently at different moments. A theorem that holds for
  every environment holds for every behaviour of the services.

  A reply is what the code reads of a response: \<open>Raised\<close> when \<open>session.get\<close>,
  \<open>session.post\<close> or \<open>session.put\<close> raises, else the status code and the part of the JSON
  body that the code reads, \<open>None\<close> when reading it raises (\<open>response.json()\<close> fails or a
  key is missing).
\<close>

datatype event =
    Get_collections
  | Get_tags
  | Get_collection string
  | Put_collection string
  | Post_embeddings string
  | Sleep nat
  | Put_points string "point list"
  | Post_scroll string nat
  | Post_delete string "point_id list"
  | Print_report int int int int int

datatype 'a reply = Raised | Reply nat "'a option"

record env =
  ollama :: "nat \<Rightarrow> string \<Rightarrow> vector option reply"
  ollama_tags :: "nat \<Rightarrow> string list reply"
  qdrant :: "nat \<Rightarrow> string option reply"
  clock :: "nat \<Rightarrow> pyfloat"
  files :: "string \<Rightarrow> book list option"

text \<open>
  The body of an embedding reply is the value of its \<open>"embedding"\<close> key: a vector, or JSON
  \<open>null\<close>, which \<open>response.json()\<close> reads as Python's \<open>None\<close> (the two values of the
  annotation \<open>Optional[List[float]]\<close> of \<open>get_embedding\<close>). So \<open>Reply 200 (Some (Some v))\<close>
  is a 200 response with the body \<open>{"embedding": v}\<close>, \<open>Reply 200 (Some None)\<close> one with the
  body \<open>{"embedding": null}\<close>, and \<open>Reply 200 None\<close> one whose body is not JSON or has no
  \<open>"embedding"\<close> key. The body of a reply to \<open>GET /api/tags\<close> is the list of the names of
  the models, empty when the key \<open>"models"\<close> is missing. The body of a store reply is the
  value of \<open>result.get("status")\<close>, \<open>None\<close> for a body without that key; of the replies to
  \<open>GET /collections\<close> and \<open>GET /collections/{name}\<close> the code reads the status code, and in
  \<open>verify_collections\<close> whether the body can be read.

  \<open>clock\<close> is \<open>time.time()\<close>, the seconds since the epoch: a positive finite float, so
  that two readings are equal as floats exactly when their 64 bits are equal. \<open>files\<close> is
  the file system as step 3 of \<open>import_books\<close> reads it: the list of books a path holds,
  \<open>None\<close> for a path that does not exist or whose content \<open>json.load\<close> rejects.
\<close>

record stats =
  total_books :: int
  processed_books :: int
  successful_uploads :: int
  failed_uploads :: int
  embedding_calls :: int
  start_time :: "pyfloat option"

text \<open>
  The state threaded through the importer's methods: \<open>self.stats\<close>, the events so far and
  the contents of the store's collections, by name.
\<close>

record state =
  stats :: stats
  events :: "event list"
  store :: "string \<Rightarrow> point list"

definition init_stats :: stats where
  \<comment> \<open>\<open>BookImporter.__init__\<close>, lines 30-37\<close>
  "init_stats = \<lparr>total_books = 0, processed_books = 0, successful_uploads = 0,
                  failed_uploads = 0, embedding_calls = 0, start_time = None\<rparr>"

definition emit :: "event \<Rightarrow> state \<Rightarrow> state" where
  "emit e s = s\<lparr>events := events s @ [e]\<rparr>"

subsection \<open>The vector store\<close>

text \<open>
  The store's side of the three requests the importer makes on points. The store applies
  an upsert or a delete exactly when it answers 200 with status \<open>ok\<close>; an upsert writes or
  overwrites by identifier (section 4.3 of the spec); a scroll answers with the
  identifiers of at most \<open>limit\<close> points, the page size of the request.
\<close>

definition acknowledged :: "string option reply \<Rightarrow> bool" where
  "acknowledged r = (r = Reply 200 (Some (Some ''ok'')))"

fun upsert_point :: "point \<Rightarrow> point list \<Rightarrow> point list" where
  "upsert_point p [] = [p]"
| "upsert_point p (q # qs) = (if pid q = pid p then p # qs else q # upsert_point p qs)"

definition store_upsert :: "point list \<Rightarrow> point list \<Rightarrow> point list" where
  "store_upsert ps coll = foldl (\<lambda>c p. upsert_point p c) coll ps"

definition store_delete :: "point_id list \<Rightarrow> point list \<Rightarrow> point list" where
  "store_delete ids coll = filter (\<lambda>p. pid p \<notin> set ids) coll"

definition qdrant_put_points :: "env \<Rightarrow> string \<Rightarrow> point list \<Rightarrow> state \<Rightarrow> string option reply \<times> state" where
  "qdrant_put_points env collection points s =
     (let r = qdrant env (length (events s));
          s1 = emit (Put_points collection points) s
      in (r, if acknowledged r
             then s1\<lparr>store := (store s1)(collection := store_upsert points (store s1 collection))\<rparr>
             else s1))"

definition qdrant_delete :: "env \<Rightarrow> string \<Rightarrow> point_id list \<Rightarrow> state \<Rightarrow> string option reply \<times> state" where
  "qdrant_delete env collection ids s =
     (let r = qdrant env (length (events s));
          s1 = emit (Post_delete collection ids) s
      in (r, if acknowledged r
             then s1\<lparr>store := (store s1)(collection := store_delete ids (store s1 collection))\<rparr>
             else s1))"

definition qdrant_scroll :: "env \<Rightarrow> string \<Rightarrow> nat \<Rightarrow> state \<Rightarrow> point_id list reply \<times> state" where
  "qdrant_scroll env collection limit s =
     (let r = (case qdrant env (length (events s)) of
                 Raised \<Rightarrow> Raised
               | Reply code None \<Rightarrow> Reply code None
               | Reply code (Some _) \<Rightarrow> Reply code (Some (map pid (take limit (store s collection)))))
      in (r, emit (Post_scroll collection limit) s))"

section \<open>The importer\<close>

definition MAX_RETRIES :: nat where
  "MAX_RETRIES = 3"

subsection \<open>EmbeddingClient: \<open>get_embedding\<close> (lines 183-210)\<close>

definition backoff :: "nat \<Rightarrow> state \<Rightarrow> state" where
  \<comment> \<open>\<open>if attempt < MAX_RETRIES - 1: time.sleep(1)\<close>\<close>
  "backoff attempt s = (if attempt < MAX_RETRIES - 1 then emit (Sleep 1000) s else s)"

text \<open>
  The loop \<open>for attempt in range(MAX_RETRIES)\<close>, from the attempt \<open>attempt\<close> on. A status
  other than 200 takes the \<open>else\<close> branch, an exception of the request or of reading the
  body takes the \<open>except\<close> branch; both back off and go to the next attempt. A 200 reply
  whose body can be read ends the loop: \<open>return result["embedding"]\<close> (lines 198-200)
  returns the value of the key as it is, a vector or \<open>None\<close> for JSON \<open>null\<close>. After the loop
  the method returns \<open>None\<close>.
\<close>

function get_embedding_loop :: "env \<Rightarrow> string \<Rightarrow> nat \<Rightarrow> state \<Rightarrow> vector option \<times> state" where
  "get_embedding_loop env text attempt s =
     (if attempt < MAX_RETRIES then
        (let r = ollama env (length (events s)) text;
             s1 = emit (Post_embeddings text) s
         in case r of
              Raised \<Rightarrow> get_embedding_loop env text (attempt + 1) (backoff attempt s1)
            | Reply code body \<Rightarrow>
                if code = 200 then
                  (case body of
                     Some embedding \<Rightarrow> (embedding, s1)
                   | None \<Rightarrow> get_embedding_loop env text (attempt + 1) (backoff attempt s1))
                else get_embedding_loop env text (attempt + 1) (backoff attempt s1))
      else (None, s))"
  by pat_completeness auto
termination
  by (relation "measure (\<lambda>(env, text, attempt, s). MAX_RETRIES - attempt)") auto

declare get_embedding_loop.simps [simp del]

definition get_embedding :: "env \<Rightarrow> string \<Rightarrow> state \<Rightarrow> vector option \<times> state" where
  "get_embedding env text s =
     get_embedding_loop env text 0
       (s\<lparr>stats := (stats s)\<lparr>embedding_calls := embedding_calls (stats s) + 1\<rparr>\<rparr>)"

subsection \<open>CollectionStore: \<open>upsert_to_qdrant\<close> (lines 212-233), \<open>clear_collection\<close> (lines 122-160), \<open>setup_collections\<close> (lines 162-181)\<close>

definition upsert_to_qdrant :: "env \<Rightarrow> string \<Rightarrow> point list \<Rightarrow> state \<Rightarrow> bool \<times> state" where
  "upsert_to_qdrant env collection points s =
     (if points = [] then (True, s)
      else case qdrant_put_points env collection points s of
             (Raised, s1) \<Rightarrow> (False, s1)
           | (Reply code body, s1) \<Rightarrow>
               if code = 200 then
                 (case body of
                    None \<Rightarrow> (False, s1)
                  | Some status \<Rightarrow> if status = Some ''ok'' then (True, s1) else (False, s1))
               else (False, s1))"

definition clear_collection :: "env \<Rightarrow> string \<Rightarrow> state \<Rightarrow> bool \<times> state" where
  "clear_collection env collection_name s =
     (case qdrant_scroll env collection_name 10000 s of
        (Raised, s1) \<Rightarrow> (False, s1)
      | (Reply code body, s1) \<Rightarrow>
          if code \<noteq> 200 then (False, s1)
          else (case body of
                  None \<Rightarrow> (False, s1)
                | Some point_ids \<Rightarrow>
                    if point_ids = [] then (True, s1)
                    else (case qdrant_delete env collection_name point_ids s1 of
                            (Raised, s2) \<Rightarrow> (False, s2)
                          | (Reply dcode dbody, s2) \<Rightarrow>
                              if dcode = 200 then
                                (case dbody of
                                   None \<Rightarrow> (False, s2)
                                 | Some status \<Rightarrow>
                                     if status = Some ''ok'' then (True, s2) else (False, s2))
                              else (False, s2))))"

text \<open>
  \<open>check_collection_exists\<close> (lines 79-86) and \<open>create_collection\<close> (lines 88-120). The store
  of the model maps every name to a list of points, empty for a collection that does not
  exist; a collection is created empty and an existing one is never replaced, so creating
  changes no list of points.
\<close>

definition check_collection_exists :: "env \<Rightarrow> string \<Rightarrow> state \<Rightarrow> bool \<times> state" where
  "check_collection_exists env collection_name s =
     (let r = qdrant env (length (events s));
          s1 = emit (Get_collection collection_name) s
      in case r of
           Raised \<Rightarrow> (False, s1)
         | Reply code body \<Rightarrow> (code = 200, s1))"

definition create_collection :: "env \<Rightarrow> string \<Rightarrow> state \<Rightarrow> bool \<times> state" where
  "create_collection env collection_name s =
     (let r = qdrant env (length (events s));
          s1 = emit (Put_collection collection_name) s
      in case r of
           Raised \<Rightarrow> (False, s1)
         | Reply code body \<Rightarrow>
             if code = 200 then
               (case body of
                  None \<Rightarrow> (False, s1)
                | Some status \<Rightarrow> if status = Some ''ok'' then (True, s1) else (False, s1))
             else (False, s1))"

text \<open>
  The loop \<open>for collection in collections\<close> of \<open>setup_collections\<close> over the remaining names.
\<close>

fun setup_collections_loop :: "env \<Rightarrow> bool \<Rightarrow> string list \<Rightarrow> state \<Rightarrow> bool \<times> state" where
  "setup_collections_loop env clear_existing [] s = (True, s)"
| "setup_collections_loop env clear_existing (collection # rest) s =
     (case check_collection_exists env collection s of
        (found, s1) \<Rightarrow>
          if found then
            (if clear_existing then
               (case clear_collection env collection s1 of
                  (cleared, s2) \<Rightarrow>
                    if \<not> cleared then (False, s2)
                    else setup_collections_loop env clear_existing rest s2)
             else setup_collections_loop env clear_existing rest s1)
          else
            (case create_collection env collection s1 of
               (created, s2) \<Rightarrow>
                 if \<not> created then (False, s2)
                 else setup_collections_loop env clear_existing rest s2))"

definition setup_collections :: "env \<Rightarrow> bool \<Rightarrow> state \<Rightarrow> bool \<times> state" where
  "setup_collections env clear_existing s =
     setup_collections_loop env clear_existing [''tags_vecs'', ''desc_vecs''] s"

subsection \<open>BatchProcessor: \<open>process_book\<close> (lines 235-297), \<open>process_batch\<close> (lines 299-315)\<close>

definition book_key :: "book \<Rightarrow> nat \<Rightarrow> string" where
  \<comment> \<open>\<open>book.get("book_id", f"bk_{book_index}")\<close>\<close>
  "book_key b book_index = get_or (book_id b) (''bk_'' @ str_of_nat book_index)"

definition tags_text :: "book \<Rightarrow> string" where
  \<comment> \<open>line 249; an empty list is falsy\<close>
  "tags_text b =
     (let title = get_or (title b) [];
          tags = get_or (tags b) []
      in if tags \<noteq> [] then category_prefix @ join '', '' tags else title_prefix @ title)"

definition full_payload :: "book \<Rightarrow> nat \<Rightarrow> (string \<times> jvalue) list" where
  "full_payload b book_index =
     [(''book_id'', Str (book_key b book_index)),
      (''title'', Str (get_or (title b) [])),
      (''author'', Str (get_or (author b) [])),
      (''description'', Str (get_or (description b) [])),
      (''tags'', Strs (get_or (tags b) [])),
      (''language'', Str (get_or (language b) default_language)),
      (''cover_url'', Str (get_or (cover_url b) [])),
      (''type'', Str ''book'')]"

text \<open>
  With well-typed fields nothing between the two embedding calls can raise, so the
  \<open>except\<close> branch of \<open>process_book\<close> (which returns \<open>None, None\<close> too) has no case here.
\<close>

definition process_book :: "env \<Rightarrow> book \<Rightarrow> nat \<Rightarrow> state \<Rightarrow> (point option \<times> point option) \<times> state" where
  "process_book env b book_index s =
     (case get_embedding env (tags_text b) s of
        (None, s1) \<Rightarrow> ((None, None), s1)
      | (Some tags_vector, s1) \<Rightarrow>
          (case get_embedding env (get_or (description b) []) s1 of
             (None, s2) \<Rightarrow> ((None, None), s2)
           | (Some desc_vector, s2) \<Rightarrow>
               (let point_uuid = book_id_to_uuid (book_key b book_index);
                    tags_point = \<lparr>pid = Uuid point_uuid, pvector = tags_vector,
                                  payload = full_payload b book_index\<rparr>;
                    desc_point = \<lparr>pid = Uuid point_uuid, pvector = desc_vector,
                                  payload = [(''book_id'', Str (book_key b book_index)),
                                             (''type'', Str ''book_desc'')]\<rparr>
                in ((Some tags_point, Some desc_point), s2))))"

definition count_failed :: "state \<Rightarrow> state" where
  \<comment> \<open>\<open>self.stats['failed_uploads'] += 1\<close>\<close>
  "count_failed s = s\<lparr>stats := (stats s)\<lparr>failed_uploads := failed_uploads (stats s) + 1\<rparr>\<rparr>"

text \<open>
  The loop \<open>for i, book in enumerate(books)\<close> over the remaining books, with the three
  accumulators. A point is a non-empty dictionary, hence truthy: \<open>tags_point and desc_point\<close>
  holds exactly when neither is \<open>None\<close>.
\<close>

fun process_batch_loop ::
  "env \<Rightarrow> nat \<Rightarrow> book list \<Rightarrow> nat \<Rightarrow> point list \<times> point list \<times> int \<Rightarrow> state
   \<Rightarrow> (point list \<times> point list \<times> int) \<times> state" where
  "process_batch_loop env start_idx [] i acc s = (acc, s)"
| "process_batch_loop env start_idx (b # rest) i (tags_points, desc_points, successful_count) s =
     (case process_book env b (start_idx + i) s of
        ((tags_point, desc_point), s1) \<Rightarrow>
          (case (tags_point, desc_point) of
             (Some tp, Some dp) \<Rightarrow>
               process_batch_loop env start_idx rest (i + 1)
                 (tags_points @ [tp], desc_points @ [dp], successful_count + 1) s1
           | _ \<Rightarrow>
               process_batch_loop env start_idx rest (i + 1)
                 (tags_points, desc_points, successful_count) (count_failed s1)))"

definition process_batch ::
  "env \<Rightarrow> book list \<Rightarrow> nat \<Rightarrow> state \<Rightarrow> (point list \<times> point list \<times> int) \<times> state" where
  "process_batch env books start_idx s = process_batch_loop env start_idx books 0 ([], [], 0) s"

subsection \<open>PipelineRunner: \<open>check_services\<close> (lines 46-77), \<open>import_books\<close> (lines 317-400), \<open>print_final_report\<close> (lines 418-438), \<open>verify_collections\<close> (lines 440-455)\<close>

definition EMBEDDING_MODEL :: string where
  "EMBEDDING_MODEL = ''quentinz/bge-large-zh-v1.5:latest''"

text \<open>
  \<open>check_services\<close>: every way out but the last returns \<open>False\<close>, the \<open>except\<close> branch too.
\<close>

definition check_services :: "env \<Rightarrow> state \<Rightarrow> bool \<times> state" where
  "check_services env s =
     (let qdrant_resp = qdrant env (length (events s));
          s1 = emit Get_collections s
      in case qdrant_resp of
           Raised \<Rightarrow> (False, s1)
         | Reply qdrant_code qdrant_body \<Rightarrow>
             if qdrant_code \<noteq> 200 then (False, s1)
             else (let ollama_resp = ollama_tags env (length (events s1));
                       s2 = emit Get_tags s1
                   in case ollama_resp of
                        Raised \<Rightarrow> (False, s2)
                      | Reply ollama_code models \<Rightarrow>
                          if ollama_code \<noteq> 200 then (False, s2)
                          else (case models of
                                  None \<Rightarrow> (False, s2)
                                | Some model_names \<Rightarrow>
                                    if EMBEDDING_MODEL \<notin> set model_names then (False, s2)
                                    else (True, s2))))"

datatype error = ValueError | ZeroDivisionError

text \<open>
  The report prints the five counters of \<open>self.stats\<close> in this order: total, processed,
  successful, failed, embedding calls. After them, when \<open>processed_books\<close> is positive, line
  436 divides \<open>processed_books\<close> by \<open>total_time = time.time() - start_time\<close>, outside every
  \<open>try\<close>: Python raises \<open>ZeroDivisionError\<close> when \<open>total_time\<close> is zero, and the difference of
  two finite floats is zero exactly when they are equal. Line 437 divides by
  \<open>processed_books\<close>, which is positive there. The result is the exception raised, if any,
  and the state reached.
\<close>

definition print_final_report :: "env \<Rightarrow> state \<Rightarrow> error option \<times> state" where
  "print_final_report env s =
     (case start_time (stats s) of
        None \<Rightarrow> (None, s)
      | Some t \<Rightarrow>
          (let now = clock env (length (events s));
               s1 = emit (Print_report (total_books (stats s)) (processed_books (stats s))
                            (successful_uploads (stats s)) (failed_uploads (stats s))
                            (embedding_calls (stats s))) s
           in if 0 < processed_books (stats s) \<and> now = t then (Some ZeroDivisionError, s1)
              else (None, s1)))"

text \<open>
  \<open>verify_collections\<close>: the loop over the two names is inside the \<open>try\<close>, so an exception
  of a request or of reading a body ends it.
\<close>

fun verify_collections_loop :: "env \<Rightarrow> string list \<Rightarrow> state \<Rightarrow> state" where
  "verify_collections_loop env [] s = s"
| "verify_collections_loop env (collection # rest) s =
     (let r = qdrant env (length (events s));
          s1 = emit (Get_collection collection) s
      in case r of
           Raised \<Rightarrow> s1
         | Reply code body \<Rightarrow>
             if code = 200 then
               (case body of
                  None \<Rightarrow> s1
                | Some info \<Rightarrow> verify_collections_loop env rest s1)
             else verify_collections_loop env rest s1)"

definition verify_collections :: "env \<Rightarrow> state \<Rightarrow> state" where
  "verify_collections env s = verify_collections_loop env [''tags_vecs'', ''desc_vecs''] s"

text \<open>
  The body of the loop \<open>for i in range(0, len(books), batch_size)\<close>, lines 354-394. Each
  \<open>continue\<close> leaves the iteration with the state reached; only an iteration that gets
  through both upserts updates the counters and sleeps half a second. \<open>print_progress\<close>
  (lines 402-416) only prints: it divides by \<open>len(books)\<close>, positive inside the loop, and by
  the elapsed time and the rate only when they are positive. No call inside the \<open>try\<close>
  raises in this model, so its \<open>except\<close> branch (another \<open>continue\<close>) has no case.
\<close>

definition import_batch :: "env \<Rightarrow> book list \<Rightarrow> nat \<Rightarrow> nat \<Rightarrow> state \<Rightarrow> state" where
  "import_batch env books batch_size i s =
     (let batch = py_slice i (i + batch_size) books
      in case process_batch env batch i s of
           ((tags_points, desc_points, successful_count), s1) \<Rightarrow>
             if tags_points = [] \<or> desc_points = [] then s1
             else (case upsert_to_qdrant env ''tags_vecs'' tags_points s1 of
                     (ok_tags, s2) \<Rightarrow>
                       if \<not> ok_tags then s2
                       else (case upsert_to_qdrant env ''desc_vecs'' desc_points s2 of
                               (ok_desc, s3) \<Rightarrow>
                                 if \<not> ok_desc then s3
                                 else emit (Sleep 500)
                                        (s3\<lparr>stats := (stats s3)
                                            \<lparr>processed_books :=
                                               processed_books (stats s3) + int (length batch),
                                             successful_uploads :=
                                               successful_uploads (stats s3) + successful_count\<rparr>\<rparr>))))"

function import_loop :: "env \<Rightarrow> book list \<Rightarrow> nat \<Rightarrow> nat \<Rightarrow> state \<Rightarrow> state" where
  "import_loop env books batch_size i s =
     (if 0 < batch_size \<and> i < length books
      then import_loop env books batch_size (i + batch_size) (import_batch env books batch_size i s)
      else s)"
  by pat_completeness auto
termination
  by (relation "measure (\<lambda>(env, books, batch_size, i, s). length books - i)") auto

declare import_loop.simps [simp del]

text \<open>
  \<open>import_books\<close>, its six steps. The result is what the call does, return a boolean (\<open>Inr\<close>)
  or raise (\<open>Inl\<close>), and the state it leaves. Steps 1 to 3 return \<open>False\<close> when the services
  are not there, when a collection can be neither cleared nor created, and when the file
  cannot be loaded. \<open>range\<close> raises \<open>ValueError\<close> for a step of zero, outside every \<open>try\<close>, and
  is empty for a negative step. An exception of \<open>print_final_report\<close> leaves \<open>import_books\<close>
  before \<open>verify_collections\<close>.
\<close>

definition import_books :: "env \<Rightarrow> string \<Rightarrow> int \<Rightarrow> bool \<Rightarrow> state \<Rightarrow> (error + bool) \<times> state" where
  "import_books env json_file batch_size clear_existing s =
     (case check_services env s of
        (services_ok, s1) \<Rightarrow>
          if \<not> services_ok then (Inr False, s1)
          else (case setup_collections env clear_existing s1 of
                  (collections_ok, s2) \<Rightarrow>
                    if \<not> collections_ok then (Inr False, s2)
                    else (case files env json_file of
                            None \<Rightarrow> (Inr False, s2)
                          | Some books \<Rightarrow>
                              (let s3 = s2\<lparr>stats := (stats s2)
                                          \<lparr>total_books := int (length books),
                                           start_time := Some (clock env (length (events s2)))\<rparr>\<rparr>
                               in if batch_size = 0 then (Inl ValueError, s3)
                                  else (case print_final_report env
                                               (import_loop env books (nat batch_size) 0 s3) of
                                          (Some e, s4) \<Rightarrow> (Inl e, s4)
                                        | (None, s4) \<Rightarrow> (Inr True, verify_collections env s4))))))"

section \<open>Vocabulary of the statements\<close>

fun attempt_result :: "vector option reply \<Rightarrow> vector option option" where
  \<comment> \<open>what an attempt with this reply does: \<open>Some x\<close>, \<open>get_embedding\<close> returns \<open>x\<close>;
      \<open>None\<close>, the attempt fails and the loop goes on\<close>
  "attempt_result Raised = None"
| "attempt_result (Reply code body) = (if code = 200 then body else None)"

definition attempts_trace :: "string \<Rightarrow> nat \<Rightarrow> event list" where
  \<comment> \<open>\<open>k\<close> requests for \<open>text\<close> with a one-second sleep between two consecutive ones\<close>
  "attempts_trace text k =
     concat (replicate (k - 1) [Post_embeddings text, Sleep 1000]) @ [Post_embeddings text]"

definition called :: "string \<Rightarrow> nat \<Rightarrow> state \<Rightarrow> state" where
  \<comment> \<open>the state after one call of \<open>get_embedding\<close> that made \<open>k\<close> requests\<close>
  "called text k s =
     s\<lparr>stats := (stats s)\<lparr>embedding_calls := embedding_calls (stats s) + 1\<rparr>,
       events := events s @ attempts_trace text k\<rparr>"

definition ids :: "point list \<Rightarrow> point_id set" where
  "ids ps = pid ` set ps"

definition record_id :: "nat \<times> book \<Rightarrow> point_id" where
  \<comment> \<open>the identifier of the record at a position of the input\<close>
  "record_id jb = (case jb of (j, b) \<Rightarrow> Uuid (book_id_to_uuid (book_key b j)))"

definition tags_point_of :: "book \<Rightarrow> nat \<Rightarrow> vector \<Rightarrow> point" where
  "tags_point_of b i v =
     \<lparr>pid = Uuid (book_id_to_uuid (book_key b i)), pvector = v, payload = full_payload b i\<rparr>"

definition desc_point_of :: "book \<Rightarrow> nat \<Rightarrow> vector \<Rightarrow> point" where
  "desc_point_of b i v =
     \<lparr>pid = Uuid (book_id_to_uuid (book_key b i)), pvector = v,
      payload = [(''book_id'', Str (book_key b i)), (''type'', Str ''book_desc'')]\<rparr>"

definition written :: "string \<Rightarrow> point list \<Rightarrow> state \<Rightarrow> state" where
  \<comment> \<open>the state after the store has applied and acknowledged an upsert\<close>
  "written c ps s =
     (emit (Put_points c ps) s)\<lparr>store := (store s)(c := store_upsert ps (store s c))\<rparr>"

fun is_delete :: "event \<Rightarrow> bool" where
  "is_delete (Post_delete collection points) = True"
| "is_delete e = False"

definition grows :: "point_id set \<Rightarrow> state \<Rightarrow> state \<Rightarrow> bool" where
  \<comment> \<open>from \<open>s\<close> to \<open>s'\<close> no collection loses an identifier or gains one outside \<open>K\<close>, a
      collection that holds \<open>K\<close> keeps its size, a collection gains one point for each
      identifier it gains, and no delete is requested\<close>
  "grows K s s' \<longleftrightarrow>
     (\<forall>c. ids (store s c) \<subseteq> ids (store s' c) \<and>
          ids (store s' c) \<subseteq> ids (store s c) \<union> K \<and>
          (K \<subseteq> ids (store s c) \<longrightarrow> length (store s' c) = length (store s c)) \<and>
          length (store s' c) = length (store s c) + card (ids (store s' c) - ids (store s c))) \<and>
     (\<exists>es. events s' = events s @ es \<and> \<not> list_ex is_delete es)"

definition counters :: "stats \<Rightarrow> int \<times> int \<times> int \<times> pyfloat option" where
  \<comment> \<open>the statistics that only \<open>import_books\<close> writes\<close>
  "counters st = (total_books st, processed_books st, successful_uploads st, start_time st)"



definition opened :: "state \<Rightarrow> state" where
  \<comment> \<open>the state after the four checks that open a run without \<open>clear_existing\<close> when
      both services answer and both collections exist\<close>
  "opened s =
     emit (Get_collection ''desc_vecs'') (emit (Get_collection ''tags_vecs'')
       (emit Get_tags (emit Get_collections s)))"

definition verified :: "state \<Rightarrow> state" where
  \<comment> \<open>the state after the two requests of \<open>verify_collections\<close>\<close>
  "verified s = emit (Get_collection ''desc_vecs'') (emit (Get_collection ''tags_vecs'') s)"


subsection \<open>Concrete inputs\<close>

definition empty_state :: state where
  "empty_state = \<lparr>stats = init_stats, events = [], store = (\<lambda>collection. [])\<rparr>"

definition dune :: book where
  "dune = \<lparr>book_id = Some ''bk_7'', title = Some ''Dune'', author = None,
           description = Some ''A desert planet.'', tags = Some [], language = None,
           cover_url = None\<rparr>"

definition untitled :: book where
  "untitled = \<lparr>book_id = None, title = None, author = None, description = None,
               tags = Some [''sci-fi'', ''classic''], language = None, cover_url = None\<rparr>"

definition numbered :: "nat \<Rightarrow> point" where
  "numbered n = \<lparr>pid = Num n, pvector = [], payload = []\<rparr>"

definition crowded :: state where
  \<comment> \<open>a tag collection of 10001 points, with the identifiers 0 to 10000\<close>
  "crowded = \<lparr>stats = init_stats, events = [],
              store = (\<lambda>collection. if collection = ''tags_vecs'' then map numbered [0..<10001] else [])\<rparr>"

definition models_listed :: "nat \<Rightarrow> string list reply" where
  \<comment> \<open>\<open>GET /api/tags\<close> lists the embedding model\<close>
  "models_listed n = Reply 200 (Some [EMBEDDING_MODEL])"

definition ticking :: "nat \<Rightarrow> pyfloat" where
  \<comment> \<open>a clock that advances with every event\<close>
  "ticking n = of_nat n"

definition shelf :: "string \<Rightarrow> book list option" where
  \<comment> \<open>a file system with one file, which holds one book\<close>
  "shelf path = (if path = ''dune.json'' then Some [dune] else None)"

definition healthy :: "vector \<Rightarrow> env" where
  \<comment> \<open>both services answer every request, the embedding service always with \<open>v\<close>\<close>
  "healthy v = \<lparr>ollama = (\<lambda>n text. Reply 200 (Some (Some v))),
                ollama_tags = models_listed,
                qdrant = (\<lambda>n. Reply 200 (Some (Some ''ok''))),
                clock = ticking, files = shelf\<rparr>"

definition null_body :: env where
  \<comment> \<open>the embedding service answers every request with 200 and the body
      \<open>{"embedding": null}\<close>\<close>
  "null_body = \<lparr>ollama = (\<lambda>n text. Reply 200 (Some None)),
                ollama_tags = models_listed,
                qdrant = (\<lambda>n. Reply 200 (Some (Some ''ok''))),
                clock = ticking, files = shelf\<rparr>"

definition missing_key :: env where
  \<comment> \<open>the embedding service answers every request with 200 and a body without the
      \<open>"embedding"\<close> key\<close>
  "missing_key = \<lparr>ollama = (\<lambda>n text. Reply 200 None),
                  ollama_tags = models_listed,
                  qdrant = (\<lambda>n. Reply 200 (Some (Some ''ok''))),
                  clock = ticking, files = shelf\<rparr>"

definition picky :: env where
  \<comment> \<open>the embedding service answers 500 to the tag text of \<open>untitled\<close>, at every attempt\<close>
  "picky = \<lparr>ollama = (\<lambda>n text. if text = tags_text untitled then Reply 500 None
                                 else Reply 200 (Some (Some [1]))),
            ollama_tags = models_listed,
            qdrant = (\<lambda>n. Reply 200 (Some (Some ''ok''))), clock = ticking, files = shelf\<rparr>"

definition half_written :: env where
  \<comment> \<open>the store acknowledges the request made as event 2 and answers 500 to every other one\<close>
  "half_written = \<lparr>ollama = (\<lambda>n text. Reply 200 (Some (Some [1]))),
                   ollama_tags = models_listed,
                   qdrant = (\<lambda>n. if n = 2 then Reply 200 (Some (Some ''ok'')) else Reply 500 None),
                   clock = ticking, files = shelf\<rparr>"

definition store_down :: env where
  \<comment> \<open>the embedding service answers; the store answers the checks that open a run (the
      events 0 to 3) and answers 500 to every request after them\<close>
  "store_down = \<lparr>ollama = (\<lambda>n text. Reply 200 (Some (Some [1]))),
                 ollama_tags = models_listed,
                 qdrant = (\<lambda>n. if n < 4 then Reply 200 (Some (Some ''ok'')) else Reply 500 None),
                 clock = ticking, files = shelf\<rparr>"


section \<open>The retry loop of \<open>get_embedding\<close>\<close>

lemma get_embedding_loop_unfold:
  "get_embedding_loop env text a s =
     (if a < MAX_RETRIES then
        (case attempt_result (ollama env (length (events s)) text) of
           Some x \<Rightarrow> (x, emit (Post_embeddings text) s)
         | None \<Rightarrow> get_embedding_loop env text (a + 1) (backoff a (emit (Post_embeddings text) s)))
      else (None, s))"
  by (subst get_embedding_loop.simps) (auto simp: Let_def split: reply.splits option.splits)

lemma get_embedding_loop_frame:
  "stats (snd (get_embedding_loop env text a s)) = stats s \<and>
   store (snd (get_embedding_loop env text a s)) = store s"
proof (induction "MAX_RETRIES - a" arbitrary: a s)
  case 0
  then show ?case by (subst get_embedding_loop_unfold, simp)+
next
  case (Suc n)
  then have lt: "a < MAX_RETRIES" and n: "n = MAX_RETRIES - (a + 1)" by auto
  show ?case
    using Suc.hyps(1)[OF n]
    by (subst get_embedding_loop_unfold, subst (2) get_embedding_loop_unfold)
       (auto simp: backoff_def emit_def split: option.splits)
qed

text \<open>
  The trace of the loop from the attempt \<open>a\<close> on: \<open>k\<close> failed attempts, each followed by a
  sleep, then one last attempt, which either ends the loop with the value of its reply or
  fails as the attempt number \<open>MAX_RETRIES\<close>.
\<close>

lemma get_embedding_loop_trace:
  "get_embedding_loop env text a s = (r, s') \<Longrightarrow> a < MAX_RETRIES \<Longrightarrow>
     \<exists>k. a + k < MAX_RETRIES \<and>
         events s' = events s @ concat (replicate k [Post_embeddings text, Sleep 1000]) @ [Post_embeddings text] \<and>
         (\<forall>j<k. attempt_result (ollama env (length (events s) + 2 * j) text) = None) \<and>
         (attempt_result (ollama env (length (events s) + 2 * k) text) = Some r \<or>
          attempt_result (ollama env (length (events s) + 2 * k) text) = None \<and> r = None \<and>
            a + k + 1 = MAX_RETRIES)"
proof (induction "MAX_RETRIES - a" arbitrary: a s)
  case 0
  then show ?case by simp
next
  case (Suc n)
  then have lt: "a < MAX_RETRIES" and n: "n = MAX_RETRIES - (a + 1)" by auto
  let ?s1 = "emit (Post_embeddings text) s"
  show ?case
  proof (cases "attempt_result (ollama env (length (events s)) text)")
    case (Some x)
    with Suc.prems lt have "r = x" "s' = ?s1"
      by (subst (asm) get_embedding_loop_unfold, simp)+
    with Some lt show ?thesis
      by (intro exI[of _ 0]) (simp add: emit_def)
  next
    case None
    with Suc.prems lt have rec: "get_embedding_loop env text (a + 1) (backoff a ?s1) = (r, s')"
      by (subst (asm) get_embedding_loop_unfold) simp
    show ?thesis
    proof (cases "a + 1 < MAX_RETRIES")
      case False
      from False rec have "r = None" "s' = backoff a ?s1"
        by (subst (asm) get_embedding_loop_unfold, simp)+
      with False lt have "r = None" "s' = ?s1" "a + 1 = MAX_RETRIES" by (simp_all add: backoff_def)
      with None lt show ?thesis
        by (intro exI[of _ 0]) (simp add: emit_def)
    next
      case True
      then have bo: "backoff a ?s1 = emit (Sleep 1000) ?s1" by (simp add: backoff_def)
      from Suc.hyps(1)[OF n rec True] obtain k where k:
        "a + 1 + k < MAX_RETRIES"
        "events s' = events (backoff a ?s1) @ concat (replicate k [Post_embeddings text, Sleep 1000]) @ [Post_embeddings text]"
        "\<forall>j<k. attempt_result (ollama env (length (events (backoff a ?s1)) + 2 * j) text) = None"
        "attempt_result (ollama env (length (events (backoff a ?s1)) + 2 * k) text) = Some r \<or>
         attempt_result (ollama env (length (events (backoff a ?s1)) + 2 * k) text) = None \<and> r = None \<and>
           a + 1 + k + 1 = MAX_RETRIES"
        by blast
      have len: "length (events (backoff a ?s1)) = length (events s) + 2" unfolding bo by (simp add: emit_def)
      have all: "\<forall>j<Suc k. attempt_result (ollama env (length (events s) + 2 * j) text) = None"
      proof (intro allI impI)
        fix j assume "j < Suc k"
        show "attempt_result (ollama env (length (events s) + 2 * j) text) = None"
        proof (cases j)
          case 0 then show ?thesis using None by simp
        next
          case (Suc i)
          with \<open>j < Suc k\<close> k(3) len show ?thesis by (simp add: add.assoc)
        qed
      qed
      have ev: "events (backoff a ?s1) = events s @ [Post_embeddings text, Sleep 1000]"
        unfolding bo by (simp add: emit_def)
      have idx: "length (events (backoff a ?s1)) + 2 * k = length (events s) + 2 * Suc k"
        using len by simp
      have last: "attempt_result (ollama env (length (events s) + 2 * Suc k) text) = Some r \<or>
         attempt_result (ollama env (length (events s) + 2 * Suc k) text) = None \<and> r = None \<and>
           a + Suc k + 1 = MAX_RETRIES"
        using k(4) unfolding idx by auto
      have lt': "a + Suc k < MAX_RETRIES" using k(1) by simp
      have ev': "events s' = events s @ concat (replicate (Suc k) [Post_embeddings text, Sleep 1000]) @ [Post_embeddings text]"
        using k(2) by (simp add: ev)
      from lt' ev' all last show ?thesis by blast
    qed
  qed
qed


section \<open>The identifier\<close>

lemma length_le_bytes: "length (le_bytes k n) = k"
  by (simp add: le_bytes_def)

lemma length_md5_digest: "length (md5_digest msg) = 16"
  by (simp add: md5_digest_def length_le_bytes split: prod.splits)

lemma length_concat_hex: "length (concat (map hex_byte bs)) = 2 * length bs"
  by (induction bs) (simp_all add: hex_byte_def)

lemma length_md5_hexdigest: "length (md5_hexdigest msg) = 32"
  by (simp add: md5_hexdigest_def length_concat_hex length_md5_digest)

lemma hex_digit_in: "d < 16 \<Longrightarrow> hex_digit d \<in> set hexdigits"
  unfolding hex_digit_def by (rule nth_mem) (simp add: hexdigits_def)

lemma hex_byte_in: "set (hex_byte c) \<subseteq> set hexdigits"
proof -
  have "(of_char c :: nat) < 256" by (rule nat_of_char_less_256)
  then have "(of_char c :: nat) div 16 < 16" by (simp add: div_less_iff_less_mult)
  then have a: "hex_digit (of_char c div 16) \<in> set hexdigits" by (rule hex_digit_in)
  have b: "hex_digit (of_char c mod 16) \<in> set hexdigits" by (rule hex_digit_in) simp
  show ?thesis using a b by (simp add: hex_byte_def)
qed

lemma md5_hexdigest_hex: "set (md5_hexdigest msg) \<subseteq> set hexdigits"
  using hex_byte_in by (auto simp: md5_hexdigest_def)

lemma dash_not_hex: "CHR ''-'' \<notin> set hexdigits"
  by (simp add: hexdigits_def)

lemma slices_32:
  assumes "length h = 32"
  shows "take 8 h @ py_slice 8 12 h @ py_slice 12 16 h @ py_slice 16 20 h @ py_slice 20 32 h = h"
proof -
  have e: "take m (drop n h) @ drop (n + m) h = drop n h" for n m
    by (metis add.commute append_take_drop_id drop_drop)
  have "take 12 (drop 20 h) = drop 20 h" using assms by simp
  then have "take 4 (drop 16 h) @ take 12 (drop 20 h) = drop 16 h" using e[of 4 16] by simp
  then have "take 4 (drop 12 h) @ take 4 (drop 16 h) @ take 12 (drop 20 h) = drop 12 h"
    using e[of 4 12] by simp
  then have "take 4 (drop 8 h) @ take 4 (drop 12 h) @ take 4 (drop 16 h) @ take 12 (drop 20 h) = drop 8 h"
    using e[of 4 8] by simp
  then show ?thesis by (simp add: py_slice_def)
qed

text \<open>
  A test vector: Python gives \<open>250d4470284d2123c1807c800b5f7257\<close> for
  \<open>hashlib.md5("bk_7".encode()).hexdigest()\<close>.
\<close>

lemma book_id_to_uuid_bk_7:
  "book_id_to_uuid ''bk_7'' = ''250d4470-284d-2123-c180-7c800b5f7257''"
  by code_simp

text \<open>
  Claim C1. \<open>book_id_to_uuid\<close> is a function of the key alone: it takes no state, no
  environment and no random source, so equal keys give equal identifiers in any run. The
  identifier is the MD5 digest of the key, 16 bytes (128 bits), as 32 lower-case
  hexadecimal digits with a hyphen at the positions 8, 13, 18 and 23: 36 characters, in
  the shape 8-4-4-4-12, and removing the hyphens gives back the digest.
\<close>

theorem book_id_to_uuid_deterministic:
  "length (md5_digest k) = 16 \<and>
   length (book_id_to_uuid k) = 36 \<and>
   map (\<lambda>i. book_id_to_uuid k ! i) [8, 13, 18, 23] = ''----'' \<and>
   filter (\<lambda>c. c \<noteq> CHR ''-'') (book_id_to_uuid k) = md5_hexdigest k \<and>
   set (md5_hexdigest k) \<subseteq> set hexdigits \<and>
   (k' = k \<longrightarrow> book_id_to_uuid k' = book_id_to_uuid k)"
proof -
  let ?h = "md5_hexdigest k"
  have len: "length ?h = 32" by (rule length_md5_hexdigest)
  have hex: "set ?h \<subseteq> set hexdigits" by (rule md5_hexdigest_hex)
  have nodash: "filter (\<lambda>c. c \<noteq> CHR ''-'') xs = xs" if "set xs \<subseteq> set ?h" for xs
    using that hex dash_not_hex by (intro filter_True) auto
  have parts: "set (take 8 ?h) \<subseteq> set ?h" "set (py_slice a b ?h) \<subseteq> set ?h" for a b
    by (auto simp: py_slice_def dest: in_set_takeD in_set_dropD)
  have "filter (\<lambda>c. c \<noteq> CHR ''-'') (book_id_to_uuid k) =
        take 8 ?h @ py_slice 8 12 ?h @ py_slice 12 16 ?h @ py_slice 16 20 ?h @ py_slice 20 32 ?h"
    by (simp add: book_id_to_uuid_def Let_def nodash parts)
  then have f: "filter (\<lambda>c. c \<noteq> CHR ''-'') (book_id_to_uuid k) = ?h"
    by (simp add: slices_32 [OF len])
  have l: "length (book_id_to_uuid k) = 36"
    by (simp add: book_id_to_uuid_def Let_def py_slice_def len)
  have d: "map (\<lambda>i. book_id_to_uuid k ! i) [8, 13, 18, 23] = ''----''"
    by (simp add: book_id_to_uuid_def Let_def py_slice_def len nth_append)
  show ?thesis using f l d hex length_md5_digest by simp
qed

theorem book_id_to_uuid_deterministic_witness:
  "''bk_7'' = ''bk_7'' \<and>
   book_id_to_uuid ''bk_7'' = book_id_to_uuid ''bk_7'' \<and>
   length (book_id_to_uuid ''bk_7'') = 36 \<and>
   filter (\<lambda>c. c \<noteq> CHR ''-'') (book_id_to_uuid ''bk_7'') = md5_hexdigest ''bk_7''"
  using book_id_to_uuid_deterministic [of "''bk_7''" "''bk_7''"] by simp

section \<open>The embedding client\<close>

text \<open>
  Claim C10. Whatever the embedding service answers, and so whatever the number of
  attempts and the result, one call of \<open>get_embedding\<close> adds exactly 1 to
  \<open>embedding_calls\<close> and leaves every other field of the statistics as it was.
\<close>

theorem get_embedding_counts_one_call:
  "stats (snd (get_embedding env text s)) =
     (stats s)\<lparr>embedding_calls := embedding_calls (stats s) + 1\<rparr>"
  by (simp add: get_embedding_def get_embedding_loop_frame)

text \<open>
  The trace of a call: \<open>k\<close> requests, between 1 and \<open>MAX_RETRIES\<close>, with a sleep of one
  second between two consecutive requests and none after the last. The first \<open>k - 1\<close>
  attempts fail; the last one either gets a 200 reply with a readable body, whose value
  is returned, or fails as the attempt number \<open>MAX_RETRIES\<close>.
\<close>

lemma get_embedding_trace:
  assumes "get_embedding env text s = (r, s')"
  shows "\<exists>k. 1 \<le> k \<and> k \<le> MAX_RETRIES \<and>
              events s' = events s @ attempts_trace text k \<and>
              (\<forall>j<k - 1. attempt_result (ollama env (length (events s) + 2 * j) text) = None) \<and>
              (attempt_result (ollama env (length (events s) + 2 * (k - 1)) text) = Some r \<or>
               attempt_result (ollama env (length (events s) + 2 * (k - 1)) text) = None \<and>
                 r = None \<and> k = MAX_RETRIES)"
proof -
  let ?s0 = "s\<lparr>stats := (stats s)\<lparr>embedding_calls := embedding_calls (stats s) + 1\<rparr>\<rparr>"
  from assms have run: "get_embedding_loop env text 0 ?s0 = (r, s')"
    by (simp add: get_embedding_def)
  have ev0: "events ?s0 = events s" by simp
  have pos: "0 < MAX_RETRIES" by (simp add: MAX_RETRIES_def)
  from get_embedding_loop_trace[OF run pos] obtain k where
    "0 + k < MAX_RETRIES"
    "events s' = events ?s0 @ concat (replicate k [Post_embeddings text, Sleep 1000]) @ [Post_embeddings text]"
    "\<forall>j<k. attempt_result (ollama env (length (events ?s0) + 2 * j) text) = None"
    "attempt_result (ollama env (length (events ?s0) + 2 * k) text) = Some r \<or>
     attempt_result (ollama env (length (events ?s0) + 2 * k) text) = None \<and> r = None \<and>
       0 + k + 1 = MAX_RETRIES"
    by blast
  then show ?thesis
    unfolding ev0
    by (intro exI[of _ "Suc k"]) (auto simp: attempts_trace_def)
qed

lemma get_embedding_first_ok:
  assumes "attempt_result (ollama env (length (events s)) text) = Some x"
  shows "get_embedding env text s = (x, called text 1 s)"
  unfolding get_embedding_def
  by (subst get_embedding_loop_unfold)
     (simp add: assms MAX_RETRIES_def emit_def called_def attempts_trace_def)

lemma get_embedding_all_fail:
  assumes "\<And>n. attempt_result (ollama env n text) = None"
  shows "get_embedding env text s = (None, called text 3 s)"
  unfolding get_embedding_def
  apply (subst get_embedding_loop_unfold, simp add: assms MAX_RETRIES_def)
  apply (subst get_embedding_loop_unfold, simp add: assms MAX_RETRIES_def)
  apply (subst get_embedding_loop_unfold, simp add: assms MAX_RETRIES_def)
  apply (subst get_embedding_loop_unfold, simp add: assms MAX_RETRIES_def)
  apply (simp add: backoff_def emit_def called_def attempts_trace_def MAX_RETRIES_def numeral_3_eq_3)
  done

text \<open>
  A body without the \<open>"embedding"\<close> key is a failed attempt: the \<open>except\<close> branch goes on to
  the next attempt, and \<open>None\<close> is returned after \<open>MAX_RETRIES = 3\<close> requests.
\<close>

lemma get_embedding_missing_key_retried:
  "get_embedding missing_key ''Dune'' empty_state =
     (None,
      \<lparr>stats = init_stats\<lparr>embedding_calls := 1\<rparr>,
       events = [Post_embeddings ''Dune'', Sleep 1000, Post_embeddings ''Dune'', Sleep 1000,
                 Post_embeddings ''Dune''],
       store = (\<lambda>collection. [])\<rparr>)"
proof -
  have "attempt_result (ollama missing_key n ''Dune'') = None" for n
    by (simp add: missing_key_def)
  from get_embedding_all_fail[of missing_key "''Dune''" empty_state, OF this]
  show ?thesis
    by (simp add: called_def attempts_trace_def empty_state_def init_stats_def numeral_3_eq_3)
qed

text \<open>
  Claim C4 at a failing input: an embedding service that answers the first request with
  the status 200 and the body \<open>{"embedding": null}\<close>. Lines 198-200 return the value of the
  key as it is, so the call returns \<open>None\<close>, the value that reports failure to the caller,
  after one request: no sleep and no second attempt, where \<open>MAX_RETRIES\<close> is 3.
\<close>

theorem get_embedding_null_body_not_retried:
  "get_embedding null_body ''Dune'' empty_state =
     (None,
      \<lparr>stats = init_stats\<lparr>embedding_calls := 1\<rparr>,
       events = [Post_embeddings ''Dune''],
       store = (\<lambda>collection. [])\<rparr>) \<and>
   MAX_RETRIES = 3"
proof -
  have "attempt_result (ollama null_body (length (events empty_state)) ''Dune'') = Some None"
    by (simp add: null_body_def)
  from get_embedding_first_ok[OF this]
  show ?thesis
    by (simp add: called_def attempts_trace_def empty_state_def init_stats_def MAX_RETRIES_def)
qed

section \<open>The tag text\<close>

text \<open>
  Claim C8, as amended. With a non-empty list of tags the tag text is the category prefix of
  the code, the nine bytes of U+5206 U+985E U+FF1A, followed by the tags joined with a
  comma and a space. With no tags (an absent key or an empty list) it is the title prefix
  of the code, the nine bytes of U+66F8 U+540D U+FF1A, followed by the title, and it is
  never the bare category prefix.
\<close>

theorem tags_text_cases:
  "(\<forall>ts. tags b = Some ts \<and> ts \<noteq> [] \<longrightarrow> tags_text b = category_prefix @ join '', '' ts) \<and>
   (tags b = None \<or> tags b = Some [] \<longrightarrow>
      tags_text b = title_prefix @ get_or (title b) [] \<and> tags_text b \<noteq> category_prefix)"
  by (auto simp: tags_text_def get_or_def category_prefix_def title_prefix_def)

theorem tags_text_cases_witness:
  "tags dune = Some [] \<and> tags_text dune = title_prefix @ ''Dune'' \<and> tags_text dune \<noteq> category_prefix"
  using tags_text_cases [of dune]
  by (simp add: dune_def get_or_def category_prefix_def title_prefix_def)

text \<open>
  Claim C8 as the spec words it fails: for a book without tags whose title is \<open>Dune\<close>
  the tag text is not \<open>Title: Dune\<close>.
\<close>

theorem tags_text_title_counterexample:
  "tags dune = Some [] \<and> title dune = Some ''Dune'' \<and> tags_text dune \<noteq> ''Title: '' @ ''Dune''"
  by (simp add: dune_def tags_text_def get_or_def title_prefix_def)

section \<open>The batch processor\<close>

lemma get_embedding_frame:
  "store (snd (get_embedding env text s)) = store s"
  by (simp add: get_embedding_def get_embedding_loop_frame)

lemma get_embedding_failed_uploads:
  "failed_uploads (stats (snd (get_embedding env text s))) = failed_uploads (stats s)"
  by (simp add: get_embedding_def get_embedding_loop_frame)

lemma process_book_result:
  "process_book env b i s = (r, s') \<Longrightarrow>
     store s' = store s \<and> failed_uploads (stats s') = failed_uploads (stats s) \<and>
     (r = (None, None) \<or>
      (\<exists>tp dp. r = (Some tp, Some dp) \<and> pid tp = record_id (i, b) \<and> pid dp = record_id (i, b)))"
  unfolding process_book_def
  using get_embedding_frame[of env "tags_text b" s] get_embedding_failed_uploads[of env "tags_text b" s]
        get_embedding_frame[of env "get_or (description b) []" "snd (get_embedding env (tags_text b) s)"]
        get_embedding_failed_uploads[of env "get_or (description b) []" "snd (get_embedding env (tags_text b) s)"]
  by (auto simp: Let_def record_id_def split: prod.splits option.splits)

lemma process_book_none_iff:
  "fst (process_book env b i s) = (None, None) \<longleftrightarrow>
     fst (get_embedding env (tags_text b) s) = None \<or>
     fst (get_embedding env (get_or (description b) []) (snd (get_embedding env (tags_text b) s))) = None"
  unfolding process_book_def
  by (auto simp: Let_def split: prod.splits option.splits)

lemma process_batch_loop_step:
  "process_batch_loop env start (b # bs) i (tps, dps, n) s =
     (case process_book env b (start + i) s of
        ((Some tp, Some dp), s1) \<Rightarrow>
          process_batch_loop env start bs (i + 1) (tps @ [tp], dps @ [dp], n + 1) s1
      | (r, s1) \<Rightarrow> process_batch_loop env start bs (i + 1) (tps, dps, n) (count_failed s1))"
  by (simp split: prod.splits option.splits)

lemma process_batch_loop_acc:
  "process_batch_loop env start bs i (tps, dps, n) s =
     (case process_batch_loop env start bs i ([], [], 0) s of
        ((t, d, m), s') \<Rightarrow> ((tps @ t, dps @ d, n + m), s'))"
proof (induction bs arbitrary: i tps dps n s)
  case Nil
  show ?case by simp
next
  case (Cons b bs)
  obtain tp dp s1 where pb: "process_book env b (start + i) s = ((tp, dp), s1)"
    by (metis surj_pair)
  show ?case
  proof (cases "tp \<noteq> None \<and> dp \<noteq> None")
    case True
    then obtain x y where xy: "tp = Some x" "dp = Some y" by auto
    have L: "process_batch_loop env start (b # bs) i (tps, dps, n) s =
             process_batch_loop env start bs (i + 1) (tps @ [x], dps @ [y], n + 1) s1"
      by (simp only: process_batch_loop_step pb xy prod.case option.case)
    have R: "process_batch_loop env start (b # bs) i ([], [], 0) s =
             process_batch_loop env start bs (i + 1) ([] @ [x], [] @ [y], 0 + 1) s1"
      by (simp only: process_batch_loop_step pb xy prod.case option.case)
    show ?thesis
      unfolding L R
      by (subst Cons.IH, subst (2) Cons.IH) (simp split: prod.splits)
  next
    case False
    have L: "process_batch_loop env start (b # bs) i a s =
             process_batch_loop env start bs (i + 1) a (count_failed s1)" for a
      using False pb by (cases a) (auto split: option.splits)
    show ?thesis unfolding L by (rule Cons.IH)
  qed
qed

lemma process_batch_loop_shift:
  "process_batch_loop env start bs i acc s = process_batch_loop env (start + i) bs 0 acc s"
proof (induction bs arbitrary: start i acc s)
  case Nil
  show ?case by simp
next
  case (Cons b bs)
  obtain t d n where acc: "acc = (t, d, n)" by (cases acc) auto
  have a: "process_batch_loop env start bs (i + 1) a s' = process_batch_loop env (start + i + 1) bs 0 a s'" for a s'
    using Cons.IH[of start "i + 1" a s'] by (simp add: add.assoc)
  have b: "process_batch_loop env (start + i) bs (0 + 1) a s' = process_batch_loop env (start + i + 1) bs 0 a s'" for a s'
    using Cons.IH[of "start + i" "1" a s'] by simp
  show ?case unfolding acc
    by (simp only: process_batch_loop.simps a b add_0_right)
qed

lemma process_batch_Nil: "process_batch env [] start s = (([], [], 0), s)"
  by (simp add: process_batch_def)

lemma process_batch_Cons:
  "process_batch env (b # bs) start s =
     (case process_book env b start s of
        ((Some tp, Some dp), s1) \<Rightarrow>
          (case process_batch env bs (Suc start) s1 of
             ((t, d, n), s2) \<Rightarrow> ((tp # t, dp # d, 1 + n), s2))
      | (r, s1) \<Rightarrow> process_batch env bs (Suc start) (count_failed s1))"
proof -
  have sh: "process_batch_loop env start bs (0 + 1) a s' = process_batch_loop env (Suc start) bs 0 a s'" for a s'
    using process_batch_loop_shift[of env start bs 1 a s'] by simp
  obtain tp dp s1 where pb: "process_book env b start s = ((tp, dp), s1)"
    by (metis surj_pair)
  show ?thesis
  proof (cases "tp \<noteq> None \<and> dp \<noteq> None")
    case True
    then obtain x y where xy: "tp = Some x" "dp = Some y" by auto
    have "process_batch env (b # bs) start s =
          process_batch_loop env (Suc start) bs 0 ([x], [y], 1) s1"
      unfolding process_batch_def using pb xy sh by (simp add: process_batch_loop_step)
    also have "\<dots> = (case process_batch env bs (Suc start) s1 of
                       ((t, d, n), s2) \<Rightarrow> ((x # t, y # d, 1 + n), s2))"
      unfolding process_batch_def by (subst process_batch_loop_acc) (simp split: prod.splits)
    finally show ?thesis using pb xy by simp
  next
    case False
    have "process_batch env (b # bs) start s =
          process_batch_loop env (Suc start) bs 0 ([], [], 0) (count_failed s1)"
      unfolding process_batch_def using pb False sh
      by (auto simp: process_batch_loop_step split: option.splits)
    then show ?thesis using pb False
      by (auto simp: process_batch_def split: option.splits)
  qed
qed

lemma process_batch_append:
  "process_batch env (xs @ ys) start s =
     (case process_batch env xs start s of
        ((t1, d1, n1), s1) \<Rightarrow>
          (case process_batch env ys (start + length xs) s1 of
             ((t2, d2, n2), s2) \<Rightarrow> ((t1 @ t2, d1 @ d2, n1 + n2), s2)))"
proof (induction xs arbitrary: start s)
  case Nil
  show ?case by (simp add: process_batch_Nil split: prod.splits)
next
  case (Cons b xs)
  show ?case
    by (simp add: process_batch_Cons Cons.IH split: prod.splits option.splits)
qed

lemma process_batch_counts:
  "process_batch env bs start s = ((t, d, n), s') \<Longrightarrow>
     int (length t) = n \<and> int (length d) = n \<and>
     failed_uploads (stats s') = failed_uploads (stats s) + (int (length bs) - n) \<and>
     store s' = store s \<and> map pid t = map pid d \<and>
     set (map pid t) \<subseteq> record_id ` set (enumerate start bs)"
proof (induction bs arbitrary: start s t d n s')
  case Nil
  then show ?case by (simp add: process_batch_Nil)
next
  case (Cons b bs)
  obtain tp dp s1 where pb: "process_book env b start s = ((tp, dp), s1)"
    by (metis surj_pair)
  note fr = process_book_result[OF pb]
  show ?case
  proof (cases "tp \<noteq> None \<and> dp \<noteq> None")
    case True
    then obtain x y where xy: "tp = Some x" "dp = Some y" by auto
    obtain t2 d2 n2 s2 where rest: "process_batch env bs (Suc start) s1 = ((t2, d2, n2), s2)"
      by (metis surj_pair)
    from Cons.prems pb xy rest have eq: "t = x # t2" "d = y # d2" "n = 1 + n2" "s' = s2"
      by (simp_all add: process_batch_Cons)
    from fr xy have px: "pid x = record_id (start, b)" "pid y = record_id (start, b)" by auto
    note ih = Cons.IH[OF rest]
    from ih have sub2: "set (map pid t2) \<subseteq> record_id ` set (enumerate (Suc start) bs)" by blast
    have sub: "set (map pid t2) \<subseteq> record_id ` set (enumerate start (b # bs))"
      using sub2 by auto
    have "set (map pid t) \<subseteq> record_id ` set (enumerate start (b # bs))"
      unfolding eq using sub px by simp
    moreover have "map pid t = map pid d" unfolding eq using ih px by simp
    moreover have "int (length t) = n" "int (length d) = n" unfolding eq using ih by simp_all
    moreover have "failed_uploads (stats s') = failed_uploads (stats s) + (int (length (b # bs)) - n)"
      unfolding eq using ih fr by simp
    moreover have "store s' = store s" unfolding eq using ih fr by simp
    ultimately show ?thesis by blast
  next
    case False
    with Cons.prems pb have rest: "process_batch env bs (Suc start) (count_failed s1) = ((t, d, n), s')"
      by (auto simp: process_batch_Cons split: option.splits)
    note ih = Cons.IH[OF rest]
    from ih have sub2: "set (map pid t) \<subseteq> record_id ` set (enumerate (Suc start) bs)" by blast
    have "set (map pid t) \<subseteq> record_id ` set (enumerate start (b # bs))"
      using sub2 by auto
    moreover have "failed_uploads (stats s') = failed_uploads (stats s) + (int (length (b # bs)) - n)"
      using ih fr by (simp add: count_failed_def)
    moreover have "store s' = store s" using ih fr by (simp add: count_failed_def)
    ultimately show ?thesis using ih by blast
  qed
qed

text \<open>
  Claim C3. For a batch that \<open>process_batch\<close> turns into the lists \<open>tags_points\<close> and
  \<open>desc_points\<close> and the count \<open>successful_count\<close>: both lists have \<open>successful_count\<close>
  points, and \<open>successful_count\<close> is the size of the batch minus the number of records
  counted as failed. For any record \<open>b\<close> of the batch, with the records \<open>xs\<close> before it
  and \<open>ys\<close> after it: if the embedding call for its tag text or the one for its
  description returns \<open>None\<close>, then \<open>process_book\<close> returns \<open>(None, None)\<close>, the record is
  counted as failed, and the result of the batch is made of the points of \<open>xs\<close>
  followed by the points of \<open>ys\<close>, processed from the state reached, with nothing of \<open>b\<close>
  in either list.
\<close>

theorem process_batch_isolation:
  assumes "process_batch env books start_idx s = ((tags_points, desc_points, successful_count), s')"
  shows "int (length tags_points) = successful_count \<and>
         int (length desc_points) = successful_count \<and>
         successful_count = int (length books) - (failed_uploads (stats s') - failed_uploads (stats s)) \<and>
         (\<forall>xs b ys t1 d1 n1 s1 r s2.
            books = xs @ b # ys \<and>
            process_batch env xs start_idx s = ((t1, d1, n1), s1) \<and>
            process_book env b (start_idx + length xs) s1 = (r, s2) \<and>
            (fst (get_embedding env (tags_text b) s1) = None \<or>
             fst (get_embedding env (get_or (description b) [])
                    (snd (get_embedding env (tags_text b) s1))) = None)
            \<longrightarrow> r = (None, None) \<and>
                (\<exists>t3 d3 n3.
                   process_batch env ys (start_idx + length xs + 1) (count_failed s2) = ((t3, d3, n3), s') \<and>
                   tags_points = t1 @ t3 \<and> desc_points = d1 @ d3 \<and> successful_count = n1 + n3))"
proof -
  note c = process_batch_counts[OF assms]
  have iso: "r = (None, None) \<and>
             (\<exists>t3 d3 n3.
                process_batch env ys (start_idx + length xs + 1) (count_failed s2) = ((t3, d3, n3), s') \<and>
                tags_points = t1 @ t3 \<and> desc_points = d1 @ d3 \<and> successful_count = n1 + n3)"
    if books: "books = xs @ b # ys"
      and pre: "process_batch env xs start_idx s = ((t1, d1, n1), s1)"
      and pb: "process_book env b (start_idx + length xs) s1 = (r, s2)"
      and fail: "fst (get_embedding env (tags_text b) s1) = None \<or>
                 fst (get_embedding env (get_or (description b) [])
                        (snd (get_embedding env (tags_text b) s1))) = None"
    for xs b ys t1 d1 n1 s1 r s2
  proof -
    from fail have "fst (process_book env b (start_idx + length xs) s1) = (None, None)"
      by (simp add: process_book_none_iff)
    with pb have r: "r = (None, None)" by simp
    obtain t3 d3 n3 s3 where post:
      "process_batch env ys (start_idx + length xs + 1) (count_failed s2) = ((t3, d3, n3), s3)"
      by (metis surj_pair)
    have "process_batch env books start_idx s = ((t1 @ t3, d1 @ d3, n1 + n3), s3)"
      unfolding books using pre pb r post
      by (simp add: process_batch_append process_batch_Cons)
    with assms post r show ?thesis by simp
  qed
  from c have "int (length tags_points) = successful_count" "int (length desc_points) = successful_count"
    "successful_count = int (length books) - (failed_uploads (stats s') - failed_uploads (stats s))" by simp_all
  with iso show ?thesis by blast
qed

lemma picky_untitled: "attempt_result (ollama picky n (tags_text untitled)) = None"
  by (simp add: picky_def)

lemma picky_other: "text \<noteq> tags_text untitled \<Longrightarrow> attempt_result (ollama picky n text) = Some (Some [1])"
  by (simp add: picky_def)

lemma dune_not_untitled: "tags_text dune \<noteq> tags_text untitled"
  by (simp add: tags_text_def dune_def untitled_def get_or_def title_prefix_def category_prefix_def)

lemma desc_not_untitled: "''A desert planet.'' \<noteq> tags_text untitled"
  by (simp add: tags_text_def untitled_def get_or_def category_prefix_def)

lemma picky_book_untitled:
  "process_book picky untitled i s = ((None, None), called (tags_text untitled) 3 s)"
  by (simp add: process_book_def get_embedding_all_fail picky_untitled)

lemma picky_book_dune:
  "process_book picky dune i s =
     ((Some \<lparr>pid = Uuid (book_id_to_uuid ''bk_7''), pvector = [1], payload = full_payload dune i\<rparr>,
       Some \<lparr>pid = Uuid (book_id_to_uuid ''bk_7''), pvector = [1],
             payload = [(''book_id'', Str ''bk_7''), (''type'', Str ''book_desc'')]\<rparr>),
      called ''A desert planet.'' 1 (called (tags_text dune) 1 s))"
proof -
  have d: "get_or (description dune) [] = ''A desert planet.''" "book_key dune i = ''bk_7''"
    by (simp_all add: dune_def get_or_def book_key_def)
  show ?thesis
    by (simp add: process_book_def d Let_def
          get_embedding_first_ok[OF picky_other[OF dune_not_untitled]]
          get_embedding_first_ok[OF picky_other[OF desc_not_untitled]])
qed

lemma picky_run:
  "process_batch picky [untitled, dune] 0 empty_state =
     (([\<lparr>pid = Uuid (book_id_to_uuid ''bk_7''), pvector = [1], payload = full_payload dune 1\<rparr>],
       [\<lparr>pid = Uuid (book_id_to_uuid ''bk_7''), pvector = [1],
         payload = [(''book_id'', Str ''bk_7''), (''type'', Str ''book_desc'')]\<rparr>],
       1),
      called ''A desert planet.'' 1 (called (tags_text dune) 1
        (count_failed (called (tags_text untitled) 3 empty_state))))"
  by (simp add: process_batch_Cons process_batch_Nil picky_book_untitled picky_book_dune)

theorem process_batch_isolation_witness:
  "process_batch picky [untitled, dune] 0 empty_state =
     (([\<lparr>pid = Uuid (book_id_to_uuid ''bk_7''), pvector = [1], payload = full_payload dune 1\<rparr>],
       [\<lparr>pid = Uuid (book_id_to_uuid ''bk_7''), pvector = [1],
         payload = [(''book_id'', Str ''bk_7''), (''type'', Str ''book_desc'')]\<rparr>],
       1),
      called ''A desert planet.'' 1 (called (tags_text dune) 1
        (count_failed (called (tags_text untitled) 3 empty_state)))) \<and>
   fst (get_embedding picky (tags_text untitled) empty_state) = None \<and>
   process_book picky untitled 0 empty_state = ((None, None), called (tags_text untitled) 3 empty_state) \<and>
   (\<exists>t3 d3 n3.
      process_batch picky [dune] 1 (count_failed (called (tags_text untitled) 3 empty_state)) =
        ((t3, d3, n3),
         called ''A desert planet.'' 1 (called (tags_text dune) 1
           (count_failed (called (tags_text untitled) 3 empty_state)))) \<and>
      [\<lparr>pid = Uuid (book_id_to_uuid ''bk_7''), pvector = [1], payload = full_payload dune 1\<rparr>] = [] @ t3 \<and>
      (1 :: int) = 0 + n3) \<and>
   (1 :: int) = int (length [untitled, dune]) -
      (failed_uploads (stats (called ''A desert planet.'' 1 (called (tags_text dune) 1
         (count_failed (called (tags_text untitled) 3 empty_state))))) -
       failed_uploads (stats empty_state))"
proof -
  note th = process_batch_isolation [OF picky_run]
  have pre: "process_batch picky [] 0 empty_state = (([], [], 0), empty_state)"
    by (simp add: process_batch_Nil)
  have fail: "fst (get_embedding picky (tags_text untitled) empty_state) = None"
    by (simp add: get_embedding_all_fail picky_untitled)
  have pb: "process_book picky untitled (0 + length ([] :: book list)) empty_state =
              ((None, None), called (tags_text untitled) 3 empty_state)"
    by (simp add: picky_book_untitled)
  note inst = th [THEN conjunct2, THEN conjunct2, THEN conjunct2, rule_format,
                  of "[]" untitled "[dune]" "[]" "[]" 0 empty_state "(None, None)"
                     "called (tags_text untitled) 3 empty_state"]
  have concl: "\<exists>t3 d3 n3.
      process_batch picky [dune] 1 (count_failed (called (tags_text untitled) 3 empty_state)) =
        ((t3, d3, n3),
         called ''A desert planet.'' 1 (called (tags_text dune) 1
           (count_failed (called (tags_text untitled) 3 empty_state)))) \<and>
      [\<lparr>pid = Uuid (book_id_to_uuid ''bk_7''), pvector = [1], payload = full_payload dune 1\<rparr>] = [] @ t3 \<and>
      (1 :: int) = 0 + n3"
    using inst pre pb fail by auto
  from th have cnt: "(1 :: int) = int (length [untitled, dune]) -
      (failed_uploads (stats (called ''A desert planet.'' 1 (called (tags_text dune) 1
         (count_failed (called (tags_text untitled) 3 empty_state))))) -
       failed_uploads (stats empty_state))" by blast
  from picky_run fail pb concl cnt show ?thesis by simp
qed

section \<open>The store\<close>

lemma ids_upsert_point: "ids (upsert_point p coll) = insert (pid p) (ids coll)"
  by (induction coll) (auto simp: ids_def)

lemma length_upsert_point: "pid p \<in> ids coll \<Longrightarrow> length (upsert_point p coll) = length coll"
  by (induction coll) (auto simp: ids_def)

lemma ids_store_upsert: "ids (store_upsert ps coll) = ids coll \<union> ids ps"
  unfolding store_upsert_def
proof (induction ps arbitrary: coll)
  case Nil
  show ?case by (simp add: ids_def)
next
  case (Cons p ps)
  show ?case by (simp add: Cons.IH ids_upsert_point) (auto simp: ids_def)
qed

lemma length_store_upsert: "ids ps \<subseteq> ids coll \<Longrightarrow> length (store_upsert ps coll) = length coll"
  unfolding store_upsert_def
proof (induction ps arbitrary: coll)
  case Nil
  show ?case by simp
next
  case (Cons p ps)
  from Cons.prems have p: "pid p \<in> ids coll" and ps0: "ids ps \<subseteq> ids coll"
    by (auto simp: ids_def)
  from ps0 have ps: "ids ps \<subseteq> ids (upsert_point p coll)"
    unfolding ids_upsert_point by blast
  show ?case using Cons.IH[OF ps] by (simp add: length_upsert_point[OF p])
qed

lemma finite_ids: "finite (ids coll)"
  by (simp add: ids_def)

lemma length_upsert_point_new:
  "pid p \<notin> ids coll \<Longrightarrow> length (upsert_point p coll) = Suc (length coll)"
  by (induction coll) (auto simp: ids_def)

lemma card_diff_chain:
  assumes "finite C" "A \<subseteq> B" "B \<subseteq> C"
  shows "card (C - A) = card (C - B) + card (B - A)"
proof -
  from assms have "C - A = (C - B) \<union> (B - A)" "(C - B) \<inter> (B - A) = {}" by auto
  moreover from assms have "finite (C - B)" "finite (B - A)" by (auto intro: finite_subset)
  ultimately show ?thesis by (simp add: card_Un_disjoint)
qed

lemma length_upsert_point_card:
  "length (upsert_point p coll) = length coll + card (ids (upsert_point p coll) - ids coll)"
proof (cases "pid p \<in> ids coll")
  case True
  then have "insert (pid p) (ids coll) - ids coll = {}" by auto
  with True show ?thesis by (simp add: length_upsert_point ids_upsert_point)
next
  case False
  then have "insert (pid p) (ids coll) - ids coll = {pid p}" by auto
  with False show ?thesis by (simp add: length_upsert_point_new ids_upsert_point)
qed

lemma length_store_upsert_card:
  "length (store_upsert ps coll) = length coll + card (ids (store_upsert ps coll) - ids coll)"
proof (induction ps arbitrary: coll)
  case Nil
  show ?case by (simp add: store_upsert_def)
next
  case (Cons p ps)
  let ?c1 = "upsert_point p coll"
  have eq: "store_upsert (p # ps) coll = store_upsert ps ?c1" by (simp add: store_upsert_def)
  have sub: "ids coll \<subseteq> ids ?c1" "ids ?c1 \<subseteq> ids (store_upsert ps ?c1)"
    by (auto simp: ids_upsert_point ids_store_upsert)
  from card_diff_chain[OF finite_ids sub]
  have "card (ids (store_upsert ps ?c1) - ids coll) =
        card (ids (store_upsert ps ?c1) - ids ?c1) + card (ids ?c1 - ids coll)" .
  with Cons.IH[of ?c1] length_upsert_point_card[of p coll] show ?case unfolding eq by simp
qed

lemma upsert_to_qdrant_result:
  assumes "upsert_to_qdrant env c ps s = (ok, s')"
  shows "stats s' = stats s"
    and "ps = [] \<Longrightarrow> ok \<and> s' = s"
    and "ps \<noteq> [] \<Longrightarrow> events s' = events s @ [Put_points c ps]"
    and "ps \<noteq> [] \<Longrightarrow> ok = acknowledged (qdrant env (length (events s)))"
    and "ps \<noteq> [] \<Longrightarrow> store s' = (if ok then (store s)(c := store_upsert ps (store s c)) else store s)"
  using assms
  by (auto simp: upsert_to_qdrant_def qdrant_put_points_def Let_def emit_def acknowledged_def
           split: if_splits reply.splits option.splits)

section \<open>What a run can do to the store\<close>

lemma grows_refl: "grows K s s"
  by (simp add: grows_def)

lemma grows_trans:
  assumes "grows K s s'" "grows K s' s''"
  shows "grows K s s''"
proof -
  from assms obtain es es' where e: "events s' = events s @ es" "\<not> list_ex is_delete es"
    "events s'' = events s' @ es'" "\<not> list_ex is_delete es'"
    unfolding grows_def by blast
  then have ev: "events s'' = events s @ (es @ es')" "\<not> list_ex is_delete (es @ es')"
    by (auto simp: list_ex_iff)
  have st: "ids (store s c) \<subseteq> ids (store s'' c) \<and>
            ids (store s'' c) \<subseteq> ids (store s c) \<union> K \<and>
            (K \<subseteq> ids (store s c) \<longrightarrow> length (store s'' c) = length (store s c)) \<and>
            length (store s'' c) = length (store s c) + card (ids (store s'' c) - ids (store s c))" for c
  proof -
    from assms have l: "length (store s' c) = length (store s c) + card (ids (store s' c) - ids (store s c))"
      "length (store s'' c) = length (store s' c) + card (ids (store s'' c) - ids (store s' c))"
      unfolding grows_def by blast+
    from assms have a: "ids (store s c) \<subseteq> ids (store s' c)" "ids (store s' c) \<subseteq> ids (store s c) \<union> K"
      "K \<subseteq> ids (store s c) \<longrightarrow> length (store s' c) = length (store s c)"
      "ids (store s' c) \<subseteq> ids (store s'' c)" "ids (store s'' c) \<subseteq> ids (store s' c) \<union> K"
      "K \<subseteq> ids (store s' c) \<longrightarrow> length (store s'' c) = length (store s' c)"
      unfolding grows_def by blast+
    from a(1,4) have 1: "ids (store s c) \<subseteq> ids (store s'' c)" by (rule subset_trans)
    from a(2,5) have 2: "ids (store s'' c) \<subseteq> ids (store s c) \<union> K" by auto
    have 3: "length (store s'' c) = length (store s c)" if k: "K \<subseteq> ids (store s c)"
    proof -
      from k a(1) have "K \<subseteq> ids (store s' c)" by (rule subset_trans)
      with a(6) a(3) k show ?thesis by simp
    qed
    from card_diff_chain[OF finite_ids a(1) a(4)] l
    have 4: "length (store s'' c) = length (store s c) + card (ids (store s'' c) - ids (store s c))"
      by simp
    from 1 2 3 4 show ?thesis by simp
  qed
  from ev st show ?thesis unfolding grows_def by blast
qed

lemma grows_mono: "grows K s s' \<Longrightarrow> K \<subseteq> K' \<Longrightarrow> grows K' s s'"
  unfolding grows_def by blast

lemma grows_same_store:
  assumes "store s' = store s" "events s' = events s @ es" "\<not> list_ex is_delete es"
  shows "grows K s s'"
  using assms unfolding grows_def by auto

lemma get_embedding_events:
  assumes "get_embedding env text s = (r, s')"
  shows "\<exists>k. events s' = events s @ attempts_trace text k"
  using get_embedding_trace[OF assms] by blast

lemma get_embedding_grows: "grows K s (snd (get_embedding env text s))"
proof -
  obtain r s' where run: "get_embedding env text s = (r, s')" by (metis surj_pair)
  from get_embedding_events[OF run] obtain k where "events s' = events s @ attempts_trace text k"
    by blast
  moreover have "\<not> list_ex is_delete (attempts_trace text k)"
    by (auto simp: attempts_trace_def list_ex_iff)
  moreover have "store s' = store s" using get_embedding_frame[of env "text" s] run by simp
  ultimately show ?thesis using run by (simp add: grows_same_store)
qed

lemma process_book_grows: "grows K s (snd (process_book env b i s))"
proof -
  let ?s1 = "snd (get_embedding env (tags_text b) s)"
  let ?s2 = "snd (get_embedding env (get_or (description b) []) ?s1)"
  have g1: "grows K s ?s1" by (rule get_embedding_grows)
  have g2: "grows K s ?s2" by (rule grows_trans[OF g1 get_embedding_grows])
  have "snd (process_book env b i s) = ?s1 \<or> snd (process_book env b i s) = ?s2"
    by (auto simp: process_book_def Let_def split: prod.splits option.splits)
  with g1 g2 show ?thesis by auto
qed

lemma count_failed_grows: "grows K s (count_failed s)"
  by (rule grows_same_store[where es = "[]"]) (simp_all add: count_failed_def)

lemma process_batch_grows: "grows K s (snd (process_batch env bs start s))"
proof (induction bs arbitrary: start s)
  case Nil
  show ?case by (simp add: process_batch_Nil grows_refl)
next
  case (Cons b bs)
  let ?s1 = "snd (process_book env b start s)"
  have g1: "grows K s ?s1" by (rule process_book_grows)
  have g2: "grows K s (count_failed ?s1)" by (rule grows_trans[OF g1 count_failed_grows])
  have "snd (process_batch env (b # bs) start s) = snd (process_batch env bs (Suc start) ?s1) \<or>
        snd (process_batch env (b # bs) start s) = snd (process_batch env bs (Suc start) (count_failed ?s1))"
    by (auto simp: process_batch_Cons split: prod.splits option.splits)
  then show ?case
    using grows_trans[OF g1 Cons.IH] grows_trans[OF g2 Cons.IH] by auto
qed

lemma upsert_to_qdrant_grows:
  assumes "upsert_to_qdrant env c ps s = (ok, s')"
  shows "grows (ids ps) s s'"
proof (cases "ps = []")
  case True
  with upsert_to_qdrant_result(2)[OF assms] show ?thesis by (simp add: grows_refl)
next
  case False
  note r = upsert_to_qdrant_result(3,5)[OF assms False]
  have ev: "events s' = events s @ [Put_points c ps]" "\<not> list_ex is_delete [Put_points c ps]"
    using r by simp_all
  show ?thesis
  proof (cases ok)
    case False
    with r have "store s' = store s" by simp
    then show ?thesis using ev by (rule grows_same_store)
  next
    case True
    with r have st: "store s' = (store s)(c := store_upsert ps (store s c))" by simp
    have "ids (store s c') \<subseteq> ids (store s' c') \<and>
          ids (store s' c') \<subseteq> ids (store s c') \<union> ids ps \<and>
          (ids ps \<subseteq> ids (store s c') \<longrightarrow> length (store s' c') = length (store s c')) \<and>
          length (store s' c') = length (store s c') + card (ids (store s' c') - ids (store s c'))" for c'
      unfolding st using length_store_upsert_card[of ps "store s c"]
      by (auto simp: ids_store_upsert length_store_upsert)
    with ev show ?thesis unfolding grows_def by blast
  qed
qed

lemma emit_grows: "\<not> is_delete e \<Longrightarrow> grows K s (emit e s)"
  by (rule grows_same_store[where es = "[e]"]) (simp_all add: emit_def)

lemma enumerate_slice:
  "set (enumerate i (py_slice i (i + n) xs)) \<subseteq> set (enumerate 0 xs)"
  by (auto simp: in_set_enumerate_eq py_slice_def)

lemma import_batch_cases:
  assumes pb: "process_batch env (py_slice i (i + batch_size) books) i s = ((tps, dps, n), s1)"
    and u1: "upsert_to_qdrant env ''tags_vecs'' tps s1 = (ok1, s2)"
    and u2: "upsert_to_qdrant env ''desc_vecs'' dps s2 = (ok2, s3)"
  shows "import_batch env books batch_size i s =
           (if tps = [] \<or> dps = [] then s1
            else if \<not> ok1 then s2
            else if \<not> ok2 then s3
            else emit (Sleep 500)
                   (s3\<lparr>stats := (stats s3)
                       \<lparr>processed_books := processed_books (stats s3)
                                             + int (length (py_slice i (i + batch_size) books)),
                        successful_uploads := successful_uploads (stats s3) + n\<rparr>\<rparr>))"
  using assms by (simp add: import_batch_def Let_def)

lemma import_batch_grows:
  "grows (record_id ` set (enumerate 0 books)) s (import_batch env books batch_size i s)"
proof -
  let ?K = "record_id ` set (enumerate 0 books)"
  let ?batch = "py_slice i (i + batch_size) books"
  obtain tps dps n s1 where pb: "process_batch env ?batch i s = ((tps, dps, n), s1)"
    by (metis surj_pair)
  obtain ok1 s2 where u1: "upsert_to_qdrant env ''tags_vecs'' tps s1 = (ok1, s2)"
    by (metis surj_pair)
  obtain ok2 s3 where u2: "upsert_to_qdrant env ''desc_vecs'' dps s2 = (ok2, s3)"
    by (metis surj_pair)
  note c = process_batch_counts[OF pb]
  from c have "set (map pid tps) \<subseteq> record_id ` set (enumerate i ?batch)" by blast
  moreover have "record_id ` set (enumerate i ?batch) \<subseteq> ?K"
    by (rule image_mono[OF enumerate_slice])
  ultimately have kt: "ids tps \<subseteq> ?K"
    unfolding ids_def by (simp only: set_map)
  from c have "map pid tps = map pid dps" by blast
  then have "set (map pid tps) = set (map pid dps)" by simp
  with kt have kd: "ids dps \<subseteq> ?K" by (simp add: ids_def)
  have g1: "grows ?K s s1" using process_batch_grows[of ?K s env ?batch i] pb by simp
  have g2: "grows ?K s s2"
    by (rule grows_trans[OF g1 grows_mono[OF upsert_to_qdrant_grows[OF u1] kt]])
  have g3: "grows ?K s s3"
    by (rule grows_trans[OF g2 grows_mono[OF upsert_to_qdrant_grows[OF u2] kd]])
  let ?s4 = "s3\<lparr>stats := (stats s3)
                \<lparr>processed_books := processed_books (stats s3) + int (length ?batch),
                 successful_uploads := successful_uploads (stats s3) + n\<rparr>\<rparr>"
  have a: "grows ?K s3 ?s4" by (rule grows_same_store[where es = "[]"]) simp_all
  have b: "grows ?K ?s4 (emit (Sleep 500) ?s4)" by (rule emit_grows) simp
  have g4: "grows ?K s (emit (Sleep 500) ?s4)"
    by (rule grows_trans[OF g3 grows_trans[OF a b]])
  show ?thesis
    unfolding import_batch_cases[OF pb u1 u2] using g1 g2 g3 g4 by simp
qed

lemma import_loop_grows:
  "grows (record_id ` set (enumerate 0 books)) s (import_loop env books batch_size i s)"
proof (induction env books batch_size i s rule: import_loop.induct)
  case (1 env books batch_size i s)
  show ?case
  proof (cases "0 < batch_size \<and> i < length books")
    case True
    then have "import_loop env books batch_size i s =
               import_loop env books batch_size (i + batch_size) (import_batch env books batch_size i s)"
      by (subst import_loop.simps) simp
    with grows_trans[OF import_batch_grows "1.IH"[OF True]] show ?thesis by simp
  next
    case False
    then have "import_loop env books batch_size i s = s" by (subst import_loop.simps) auto
    then show ?thesis by (simp add: grows_refl)
  qed
qed








section \<open>Evaluating a run\<close>

lemma upsert_to_qdrant_ack:
  "ps \<noteq> [] \<Longrightarrow> acknowledged (qdrant env (length (events s))) \<Longrightarrow>
     upsert_to_qdrant env c ps s = (True, written c ps s)"
  by (simp add: upsert_to_qdrant_def qdrant_put_points_def Let_def emit_def acknowledged_def
        written_def)

lemma upsert_to_qdrant_nack:
  "ps \<noteq> [] \<Longrightarrow> \<not> acknowledged (qdrant env (length (events s))) \<Longrightarrow>
     upsert_to_qdrant env c ps s = (False, emit (Put_points c ps) s)"
  by (auto simp: upsert_to_qdrant_def qdrant_put_points_def Let_def emit_def acknowledged_def
           split: reply.splits option.splits)

lemma process_book_ok:
  assumes "\<And>n text. attempt_result (ollama env n text) = Some (Some v)"
  shows "process_book env b i s =
           ((Some (tags_point_of b i v), Some (desc_point_of b i v)),
            called (get_or (description b) []) 1 (called (tags_text b) 1 s))"
  by (simp add: process_book_def Let_def get_embedding_first_ok[OF assms]
        tags_point_of_def desc_point_of_def)

lemma called_simps:
  "store (called text k s) = store s"
  "events (called text k s) = events s @ attempts_trace text k"
  "stats (called text k s) = (stats s)\<lparr>embedding_calls := embedding_calls (stats s) + 1\<rparr>"
  by (simp_all add: called_def)

lemma attempts_trace_1: "attempts_trace text 1 = [Post_embeddings text]"
  by (simp add: attempts_trace_def)

lemma get_embedding_stats:
  "stats (snd (get_embedding env text s)) =
     (stats s)\<lparr>embedding_calls := embedding_calls (stats s) + 1\<rparr>"
  by (simp add: get_embedding_def get_embedding_loop_frame)

lemma process_book_counters:
  "counters (stats (snd (process_book env b i s))) = counters (stats s)"
proof -
  let ?s1 = "snd (get_embedding env (tags_text b) s)"
  let ?s2 = "snd (get_embedding env (get_or (description b) []) ?s1)"
  have c1: "counters (stats ?s1) = counters (stats s)"
    by (simp add: get_embedding_stats counters_def)
  have c2: "counters (stats ?s2) = counters (stats s)"
    using c1 by (simp add: get_embedding_stats counters_def)
  have "snd (process_book env b i s) = ?s1 \<or> snd (process_book env b i s) = ?s2"
    by (auto simp: process_book_def Let_def split: prod.splits option.splits)
  with c1 c2 show ?thesis by auto
qed

lemma process_batch_counters:
  "counters (stats (snd (process_batch env bs start s))) = counters (stats s)"
proof (induction bs arbitrary: start s)
  case Nil
  show ?case by (simp add: process_batch_Nil)
next
  case (Cons b bs)
  let ?s1 = "snd (process_book env b start s)"
  have c1: "counters (stats ?s1) = counters (stats s)" by (rule process_book_counters)
  have c2: "counters (stats (count_failed ?s1)) = counters (stats s)"
    using c1 by (simp add: count_failed_def counters_def)
  have "snd (process_batch env (b # bs) start s) = snd (process_batch env bs (Suc start) ?s1) \<or>
        snd (process_batch env (b # bs) start s) = snd (process_batch env bs (Suc start) (count_failed ?s1))"
    by (auto simp: process_batch_Cons split: prod.splits option.splits)
  then show ?case using Cons.IH[of "Suc start" ?s1] Cons.IH[of "Suc start" "count_failed ?s1"] c1 c2
    by auto
qed

section \<open>The dual write\<close>

lemma tags_desc_distinct: "''tags_vecs'' \<noteq> ''desc_vecs''"
  by simp

lemma dual_write_stores:
  assumes pb: "process_batch env batch i s = ((tps, dps, n), s1)"
    and ne: "tps \<noteq> []"
    and u1: "upsert_to_qdrant env ''tags_vecs'' tps s1 = (ok1, s2)"
    and u2: "upsert_to_qdrant env ''desc_vecs'' dps s2 = (ok2, s3)"
  shows "dps \<noteq> []"
    and "store s2 = (if ok1 then (store s)(''tags_vecs'' := store_upsert tps (store s ''tags_vecs''))
                     else store s)"
    and "store s3 = (if ok2 then (store s2)(''desc_vecs'' := store_upsert dps (store s2 ''desc_vecs''))
                     else store s2)"
    and "events s3 = events s1 @ [Put_points ''tags_vecs'' tps, Put_points ''desc_vecs'' dps]"
    and "stats s3 = stats s1"
proof -
  note c = process_batch_counts[OF pb]
  from c have "length (map pid tps) = length (map pid dps)" by simp
  with ne show d: "dps \<noteq> []" by auto
  from c have st: "store s1 = store s" by blast
  from upsert_to_qdrant_result(5)[OF u1 ne] st
  show "store s2 = (if ok1 then (store s)(''tags_vecs'' := store_upsert tps (store s ''tags_vecs''))
                    else store s)" by simp
  from upsert_to_qdrant_result(5)[OF u2 d]
  show "store s3 = (if ok2 then (store s2)(''desc_vecs'' := store_upsert dps (store s2 ''desc_vecs''))
                    else store s2)" .
  from upsert_to_qdrant_result(3)[OF u1 ne] upsert_to_qdrant_result(3)[OF u2 d]
  show "events s3 = events s1 @ [Put_points ''tags_vecs'' tps, Put_points ''desc_vecs'' dps]"
    by simp
  from upsert_to_qdrant_result(1)[OF u1] upsert_to_qdrant_result(1)[OF u2]
  show "stats s3 = stats s1" by simp
qed

text \<open>
  Claim C2. The two points that \<open>process_book\<close> assembles for a record carry the same
  identifier, the one derived from the record's key. For a batch of the import loop with
  at least one point, when both upserts return \<open>True\<close>: the two lists carry the same
  identifiers in the same order, the tag collection gains exactly the identifiers of the
  tag points and the description collection exactly those of the description points,
  which are the same set; so two collections that held the same identifiers before the
  batch hold the same identifiers after it.
\<close>

theorem dual_write_same_identifiers:
  "(process_book env b book_index s = ((Some tags_point, Some desc_point), s1) \<longrightarrow>
      pid tags_point = pid desc_point \<and>
      pid tags_point = Uuid (book_id_to_uuid (book_key b book_index))) \<and>
   (process_batch env (py_slice i (i + batch_size) books) i s = ((tags_points, desc_points, n), s2) \<and>
    tags_points \<noteq> [] \<and>
    upsert_to_qdrant env ''tags_vecs'' tags_points s2 = (True, s3) \<and>
    upsert_to_qdrant env ''desc_vecs'' desc_points s3 = (True, s4) \<longrightarrow>
      map pid tags_points = map pid desc_points \<and>
      ids tags_points = ids desc_points \<and>
      store (import_batch env books batch_size i s) = store s4 \<and>
      ids (store s4 ''tags_vecs'') = ids (store s ''tags_vecs'') \<union> ids tags_points \<and>
      ids (store s4 ''desc_vecs'') = ids (store s ''desc_vecs'') \<union> ids desc_points \<and>
      (ids (store s ''tags_vecs'') = ids (store s ''desc_vecs'') \<longrightarrow>
         ids (store s4 ''tags_vecs'') = ids (store s4 ''desc_vecs'')))"
proof (intro conjI impI)
  assume "process_book env b book_index s = ((Some tags_point, Some desc_point), s1)"
  from process_book_result[OF this]
  show "pid tags_point = pid desc_point"
    and "pid tags_point = Uuid (book_id_to_uuid (book_key b book_index))"
    by (auto simp: record_id_def)
next
  assume a: "process_batch env (py_slice i (i + batch_size) books) i s = ((tags_points, desc_points, n), s2) \<and>
    tags_points \<noteq> [] \<and>
    upsert_to_qdrant env ''tags_vecs'' tags_points s2 = (True, s3) \<and>
    upsert_to_qdrant env ''desc_vecs'' desc_points s3 = (True, s4)"
  then have pb: "process_batch env (py_slice i (i + batch_size) books) i s = ((tags_points, desc_points, n), s2)"
    and ne: "tags_points \<noteq> []"
    and u1: "upsert_to_qdrant env ''tags_vecs'' tags_points s2 = (True, s3)"
    and u2: "upsert_to_qdrant env ''desc_vecs'' desc_points s3 = (True, s4)"
    by blast+
  note d = dual_write_stores[OF pb ne u1 u2]
  from process_batch_counts[OF pb] show m: "map pid tags_points = map pid desc_points" by blast
  then have "set (map pid tags_points) = set (map pid desc_points)" by simp
  then show e: "ids tags_points = ids desc_points" by (simp add: ids_def)
  show "store (import_batch env books batch_size i s) = store s4"
    using d(1) ne by (simp add: import_batch_cases[OF pb u1 u2] emit_def)
  show t: "ids (store s4 ''tags_vecs'') = ids (store s ''tags_vecs'') \<union> ids tags_points"
    using d(2,3) by (simp add: ids_store_upsert)
  show dd: "ids (store s4 ''desc_vecs'') = ids (store s ''desc_vecs'') \<union> ids desc_points"
    using d(2,3) by (simp add: ids_store_upsert)
  assume "ids (store s ''tags_vecs'') = ids (store s ''desc_vecs'')"
  with t dd e show "ids (store s4 ''tags_vecs'') = ids (store s4 ''desc_vecs'')" by simp
qed

lemma healthy_attempt: "attempt_result (ollama (healthy v) n text) = Some (Some v)"
  by (simp add: healthy_def)

lemma healthy_ack: "acknowledged (qdrant (healthy v) n)"
  by (simp add: healthy_def acknowledged_def)

lemma slice_dune: "py_slice 0 (0 + 10) [dune] = [dune]"
  by (simp add: py_slice_def)

lemma healthy_dune_batch:
  "process_batch (healthy [1]) (py_slice 0 (0 + 10) [dune]) 0 empty_state =
     (([tags_point_of dune 0 [1]], [desc_point_of dune 0 [1]], 1),
      called ''A desert planet.'' 1 (called (tags_text dune) 1 empty_state))"
proof -
  have d: "get_or (description dune) [] = ''A desert planet.''"
    by (simp add: dune_def get_or_def)
  show ?thesis
    unfolding slice_dune
    by (simp add: process_batch_Cons process_batch_Nil process_book_ok[OF healthy_attempt] d)
qed

theorem dual_write_same_identifiers_witness:
  "process_book (healthy [1]) dune 0 empty_state =
     ((Some (tags_point_of dune 0 [1]), Some (desc_point_of dune 0 [1])),
      called ''A desert planet.'' 1 (called (tags_text dune) 1 empty_state)) \<and>
   pid (tags_point_of dune 0 [1]) = pid (desc_point_of dune 0 [1]) \<and>
   process_batch (healthy [1]) (py_slice 0 (0 + 10) [dune]) 0 empty_state =
     (([tags_point_of dune 0 [1]], [desc_point_of dune 0 [1]], 1),
      called ''A desert planet.'' 1 (called (tags_text dune) 1 empty_state)) \<and>
   upsert_to_qdrant (healthy [1]) ''tags_vecs'' [tags_point_of dune 0 [1]]
       (called ''A desert planet.'' 1 (called (tags_text dune) 1 empty_state)) =
     (True, written ''tags_vecs'' [tags_point_of dune 0 [1]]
              (called ''A desert planet.'' 1 (called (tags_text dune) 1 empty_state))) \<and>
   upsert_to_qdrant (healthy [1]) ''desc_vecs'' [desc_point_of dune 0 [1]]
       (written ''tags_vecs'' [tags_point_of dune 0 [1]]
          (called ''A desert planet.'' 1 (called (tags_text dune) 1 empty_state))) =
     (True, written ''desc_vecs'' [desc_point_of dune 0 [1]]
              (written ''tags_vecs'' [tags_point_of dune 0 [1]]
                 (called ''A desert planet.'' 1 (called (tags_text dune) 1 empty_state)))) \<and>
   ids (store empty_state ''tags_vecs'') = ids (store empty_state ''desc_vecs'') \<and>
   ids (store (written ''desc_vecs'' [desc_point_of dune 0 [1]]
              (written ''tags_vecs'' [tags_point_of dune 0 [1]]
                 (called ''A desert planet.'' 1 (called (tags_text dune) 1 empty_state))))
          ''tags_vecs'') =
   ids (store (written ''desc_vecs'' [desc_point_of dune 0 [1]]
              (written ''tags_vecs'' [tags_point_of dune 0 [1]]
                 (called ''A desert planet.'' 1 (called (tags_text dune) 1 empty_state))))
          ''desc_vecs'')"
proof -
  let ?s1 = "called ''A desert planet.'' 1 (called (tags_text dune) 1 empty_state)"
  let ?tp = "tags_point_of dune 0 [1]"
  let ?dp = "desc_point_of dune 0 [1]"
  have d: "get_or (description dune) [] = ''A desert planet.''"
    by (simp add: dune_def get_or_def)
  have pb: "process_book (healthy [1]) dune 0 empty_state = ((Some ?tp, Some ?dp), ?s1)"
    by (simp add: process_book_ok[OF healthy_attempt] d)
  have u1: "upsert_to_qdrant (healthy [1]) ''tags_vecs'' [?tp] ?s1 = (True, written ''tags_vecs'' [?tp] ?s1)"
    by (rule upsert_to_qdrant_ack) (simp_all add: healthy_ack)
  have u2: "upsert_to_qdrant (healthy [1]) ''desc_vecs'' [?dp] (written ''tags_vecs'' [?tp] ?s1) =
              (True, written ''desc_vecs'' [?dp] (written ''tags_vecs'' [?tp] ?s1))"
    by (rule upsert_to_qdrant_ack) (simp_all add: healthy_ack)
  have e: "ids (store empty_state ''tags_vecs'') = ids (store empty_state ''desc_vecs'')"
    by (simp add: empty_state_def)
  note th = dual_write_same_identifiers
    [of "healthy [1]" dune 0 empty_state ?tp ?dp ?s1 0 10 "[dune]" "[?tp]" "[?dp]" 1 ?s1
        "written ''tags_vecs'' [?tp] ?s1"
        "written ''desc_vecs'' [?dp] (written ''tags_vecs'' [?tp] ?s1)"]
  from th pb healthy_dune_batch u1 u2 e show ?thesis by simp
qed

lemma grows_events:
  "grows K s s' \<Longrightarrow> \<not> list_ex is_delete (drop (length (events s)) (events s'))"
  unfolding grows_def by auto

lemma grows_ids: "grows K s s' \<Longrightarrow> ids (store s c) \<subseteq> ids (store s' c)"
  unfolding grows_def by blast

text \<open>
  Claim C9. In an iteration of the import loop whose batch has at least one point, when
  the upsert of the tag points returns \<open>True\<close> and the upsert of the description points
  returns \<open>False\<close>: the iteration ends there, and neither \<open>processed_books\<close> nor
  \<open>successful_uploads\<close> counts the batch; the tag collection holds the batch's tag points,
  written over what it held before; the only requests to the store are the two upserts,
  and no event since the start of the iteration is a delete. The rest of the run issues no
  delete either, and at its end the tag collection still holds the identifiers of the
  batch.
\<close>

theorem failed_second_upsert_keeps_first:
  assumes "process_batch env (py_slice i (i + batch_size) books) i s = ((tags_points, desc_points, n), s1)"
    and "tags_points \<noteq> []"
    and "upsert_to_qdrant env ''tags_vecs'' tags_points s1 = (True, s2)"
    and "upsert_to_qdrant env ''desc_vecs'' desc_points s2 = (False, s3)"
  shows "import_batch env books batch_size i s = s3 \<and>
         processed_books (stats s3) = processed_books (stats s) \<and>
         successful_uploads (stats s3) = successful_uploads (stats s) \<and>
         store s3 ''tags_vecs'' = store_upsert tags_points (store s ''tags_vecs'') \<and>
         store s3 ''desc_vecs'' = store s ''desc_vecs'' \<and>
         ids tags_points \<subseteq> ids (store s3 ''tags_vecs'') \<and>
         events s3 = events s1 @ [Put_points ''tags_vecs'' tags_points,
                                  Put_points ''desc_vecs'' desc_points] \<and>
         \<not> list_ex is_delete (drop (length (events s)) (events s3)) \<and>
         ids tags_points \<subseteq>
           ids (store (import_loop env books batch_size (i + batch_size) s3) ''tags_vecs'') \<and>
         \<not> list_ex is_delete
             (drop (length (events s))
                (events (import_loop env books batch_size (i + batch_size) s3)))"
proof -
  note d = dual_write_stores[OF assms]
  let ?K = "record_id ` set (enumerate 0 books)"
  have ib: "import_batch env books batch_size i s = s3"
    using d(1) assms(2) by (simp add: import_batch_cases[OF assms(1,3,4)])
  have c: "counters (stats s3) = counters (stats s)"
    using process_batch_counters[of env "py_slice i (i + batch_size) books" i s] assms(1) d(5)
    by simp
  have t: "store s3 ''tags_vecs'' = store_upsert tags_points (store s ''tags_vecs'')"
    using d(2,3) by simp
  have dd: "store s3 ''desc_vecs'' = store s ''desc_vecs''"
    using d(2,3) by simp
  have sub: "ids tags_points \<subseteq> ids (store s3 ''tags_vecs'')"
    unfolding t by (simp add: ids_store_upsert)
  have g: "grows ?K s s3" using import_batch_grows[of books s env batch_size i] ib by simp
  have gl: "grows ?K s3 (import_loop env books batch_size (i + batch_size) s3)"
    by (rule import_loop_grows)
  from sub grows_ids[OF gl, of "''tags_vecs''"]
  have keep: "ids tags_points \<subseteq>
                ids (store (import_loop env books batch_size (i + batch_size) s3) ''tags_vecs'')"
    by (rule subset_trans)
  from c have "processed_books (stats s3) = processed_books (stats s)"
    "successful_uploads (stats s3) = successful_uploads (stats s)"
    by (simp_all add: counters_def)
  with ib t dd sub d(4) grows_events[OF g] keep grows_events[OF grows_trans[OF g gl]]
  show ?thesis by simp
qed

lemma length_attempts_trace: "length (attempts_trace text k) = 2 * (k - 1) + 1"
  by (simp add: attempts_trace_def length_concat sum_list_replicate)

lemma half_written_attempt: "attempt_result (ollama half_written n text) = Some (Some [1])"
  by (simp add: half_written_def)

lemma half_written_dune_batch:
  "process_batch half_written (py_slice 0 (0 + 10) [dune]) 0 empty_state =
     (([tags_point_of dune 0 [1]], [desc_point_of dune 0 [1]], 1),
      called ''A desert planet.'' 1 (called (tags_text dune) 1 empty_state))"
proof -
  have d: "get_or (description dune) [] = ''A desert planet.''"
    by (simp add: dune_def get_or_def)
  show ?thesis
    unfolding slice_dune
    by (simp add: process_batch_Cons process_batch_Nil process_book_ok[OF half_written_attempt] d)
qed

theorem failed_second_upsert_keeps_first_witness:
  "process_batch half_written (py_slice 0 (0 + 10) [dune]) 0 empty_state =
     (([tags_point_of dune 0 [1]], [desc_point_of dune 0 [1]], 1),
      called ''A desert planet.'' 1 (called (tags_text dune) 1 empty_state)) \<and>
   upsert_to_qdrant half_written ''tags_vecs'' [tags_point_of dune 0 [1]]
       (called ''A desert planet.'' 1 (called (tags_text dune) 1 empty_state)) =
     (True, written ''tags_vecs'' [tags_point_of dune 0 [1]]
              (called ''A desert planet.'' 1 (called (tags_text dune) 1 empty_state))) \<and>
   upsert_to_qdrant half_written ''desc_vecs'' [desc_point_of dune 0 [1]]
       (written ''tags_vecs'' [tags_point_of dune 0 [1]]
          (called ''A desert planet.'' 1 (called (tags_text dune) 1 empty_state))) =
     (False, emit (Put_points ''desc_vecs'' [desc_point_of dune 0 [1]])
               (written ''tags_vecs'' [tags_point_of dune 0 [1]]
                  (called ''A desert planet.'' 1 (called (tags_text dune) 1 empty_state)))) \<and>
   import_batch half_written [dune] 10 0 empty_state =
     emit (Put_points ''desc_vecs'' [desc_point_of dune 0 [1]])
       (written ''tags_vecs'' [tags_point_of dune 0 [1]]
          (called ''A desert planet.'' 1 (called (tags_text dune) 1 empty_state))) \<and>
   store (import_batch half_written [dune] 10 0 empty_state) ''tags_vecs'' = [tags_point_of dune 0 [1]] \<and>
   store (import_batch half_written [dune] 10 0 empty_state) ''desc_vecs'' = []"
proof -
  let ?s1 = "called ''A desert planet.'' 1 (called (tags_text dune) 1 empty_state)"
  let ?tp = "tags_point_of dune 0 [1]"
  let ?dp = "desc_point_of dune 0 [1]"
  let ?s2 = "written ''tags_vecs'' [?tp] ?s1"
  let ?s3 = "emit (Put_points ''desc_vecs'' [?dp]) ?s2"
  have u1: "upsert_to_qdrant half_written ''tags_vecs'' [?tp] ?s1 = (True, ?s2)"
    by (rule upsert_to_qdrant_ack)
       (simp_all add: called_simps length_attempts_trace empty_state_def half_written_def acknowledged_def)
  have u2: "upsert_to_qdrant half_written ''desc_vecs'' [?dp] ?s2 = (False, ?s3)"
    by (rule upsert_to_qdrant_nack)
       (simp_all add: written_def emit_def called_simps length_attempts_trace empty_state_def
          half_written_def acknowledged_def)
  have ne: "[?tp] \<noteq> []" by simp
  note th = failed_second_upsert_keeps_first [OF half_written_dune_batch ne u1 u2]
  have st: "store_upsert [?tp] (store empty_state ''tags_vecs'') = [?tp]"
    "store empty_state ''desc_vecs'' = []"
    by (simp_all add: empty_state_def store_upsert_def)
  from th half_written_dune_batch u1 u2 st show ?thesis by simp
qed

section \<open>The steps around the import loop\<close>

lemma check_services_ok:
  assumes "qdrant env (length (events s)) = Reply 200 b"
    and "ollama_tags env (Suc (length (events s))) = Reply 200 (Some names)"
    and "EMBEDDING_MODEL \<in> set names"
  shows "check_services env s = (True, emit Get_tags (emit Get_collections s))"
  using assms by (simp add: check_services_def Let_def emit_def)

lemma setup_collections_found:
  assumes "qdrant env (length (events s)) = Reply 200 b"
    and "qdrant env (Suc (length (events s))) = Reply 200 b'"
  shows "setup_collections env False s =
           (True, emit (Get_collection ''desc_vecs'') (emit (Get_collection ''tags_vecs'') s))"
  using assms by (simp add: setup_collections_def check_collection_exists_def Let_def emit_def)

lemma verify_collections_served:
  assumes "qdrant env (length (events s)) = Reply code body"
    and "code = 200 \<longrightarrow> body \<noteq> None"
  shows "verify_collections env s = verified s"
  using assms
  by (auto simp: verify_collections_def verified_def Let_def emit_def
           split: reply.splits option.splits)

lemma import_books_steps:
  assumes "check_services env s = (True, s1)"
    and "setup_collections env clear_existing s1 = (True, s2)"
    and "files env json_file = Some books"
    and "batch_size \<noteq> 0"
    and "print_final_report env
           (import_loop env books (nat batch_size) 0
              (s2\<lparr>stats := (stats s2)\<lparr>total_books := int (length books),
                                       start_time := Some (clock env (length (events s2)))\<rparr>\<rparr>)) =
         (None, s4)"
  shows "import_books env json_file batch_size clear_existing s =
           (Inr True, verify_collections env s4)"
  using assms by (simp add: import_books_def Let_def)

section \<open>A rejected upsert in the summary\<close>

lemma store_down_attempt: "attempt_result (ollama store_down n text) = Some (Some [1])"
  by (simp add: store_down_def)

lemma store_down_nack: "4 \<le> n \<Longrightarrow> \<not> acknowledged (qdrant store_down n)"
  by (simp add: store_down_def acknowledged_def)

lemma store_down_import_batch:
  assumes "4 \<le> length (events s)"
  shows "import_batch store_down [dune] 10 0 s =
     emit (Put_points ''tags_vecs'' [tags_point_of dune 0 [1]])
       (called ''A desert planet.'' 1 (called (tags_text dune) 1 s))"
proof -
  let ?s1 = "called ''A desert planet.'' 1 (called (tags_text dune) 1 s)"
  let ?tp = "tags_point_of dune 0 [1]"
  let ?dp = "desc_point_of dune 0 [1]"
  have d: "get_or (description dune) [] = ''A desert planet.''"
    by (simp add: dune_def get_or_def)
  have pb: "process_batch store_down (py_slice 0 (0 + 10) [dune]) 0 s = (([?tp], [?dp], 1), ?s1)"
    unfolding slice_dune
    by (simp add: process_batch_Cons process_batch_Nil process_book_ok[OF store_down_attempt] d)
  have "4 \<le> length (events ?s1)" using assms by (simp add: called_simps)
  then have u1: "upsert_to_qdrant store_down ''tags_vecs'' [?tp] ?s1 =
              (False, emit (Put_points ''tags_vecs'' [?tp]) ?s1)"
    by (intro upsert_to_qdrant_nack store_down_nack) simp_all
  obtain ok2 s3 where u2: "upsert_to_qdrant store_down ''desc_vecs'' [?dp]
                             (emit (Put_points ''tags_vecs'' [?tp]) ?s1) = (ok2, s3)"
    by (metis surj_pair)
  show ?thesis by (simp add: import_batch_cases[OF pb u1 u2])
qed

lemma store_down_import_loop:
  assumes "4 \<le> length (events s)"
  shows "import_loop store_down [dune] 10 0 s =
     emit (Put_points ''tags_vecs'' [tags_point_of dune 0 [1]])
       (called ''A desert planet.'' 1 (called (tags_text dune) 1 s))"
  by (subst import_loop.simps, subst import_loop.simps)
     (simp add: store_down_import_batch[OF assms])

lemma rejected_upsert_stats:
  assumes pb: "process_batch env (py_slice i (i + batch_size) books) i s = ((tps, dps, n), s1)"
    and ne: "tps \<noteq> []"
    and u1: "upsert_to_qdrant env ''tags_vecs'' tps s1 = (False, s2)"
  shows "import_batch env books batch_size i s = s2 \<and> stats s2 = stats s1"
proof -
  obtain ok2 s3 where u2: "upsert_to_qdrant env ''desc_vecs'' dps s2 = (ok2, s3)"
    by (metis surj_pair)
  from dual_write_stores(1)[OF pb ne u1 u2] ne upsert_to_qdrant_result(1)[OF u1]
  show ?thesis by (simp add: import_batch_cases[OF pb u1 u2])
qed

text \<open>
  Claim C6 at a failing input: one book, an embedding service that answers, a store that
  answers the checks of the steps 1 and 2 and then answers 500 to the upsert of the tag
  points. The run goes on to its end, prints its summary and returns \<open>True\<close>, and the
  summary shows total 1, processed 0, successful 0, failed 0 and 2 embedding calls: the
  rejected upsert is not counted as a failure.
\<close>

theorem rejected_upsert_not_counted:
  "import_books store_down ''dune.json'' 10 False empty_state =
     (Inr True,
      verified
        (emit (Print_report 1 0 0 0 2)
           (emit (Put_points ''tags_vecs'' [tags_point_of dune 0 [1]])
              (called ''A desert planet.'' 1 (called (tags_text dune) 1
                 ((opened empty_state)
                    \<lparr>stats := init_stats\<lparr>total_books := 1, start_time := Some 4\<rparr>\<rparr>))))))"
proof -
  let ?s1 = "emit Get_tags (emit Get_collections empty_state)"
  let ?s3 = "(opened empty_state)\<lparr>stats := init_stats\<lparr>total_books := 1, start_time := Some 4\<rparr>\<rparr>"
  let ?s4 = "emit (Put_points ''tags_vecs'' [tags_point_of dune 0 [1]])
               (called ''A desert planet.'' 1 (called (tags_text dune) 1 ?s3))"
  let ?s5 = "emit (Print_report 1 0 0 0 2) ?s4"
  have cs: "check_services store_down empty_state = (True, ?s1)"
    by (rule check_services_ok[where b = "Some (Some ''ok'')" and names = "[EMBEDDING_MODEL]"])
       (simp_all add: store_down_def empty_state_def models_listed_def)
  have sc: "setup_collections store_down False ?s1 = (True, opened empty_state)"
    unfolding opened_def
    by (rule setup_collections_found[where b = "Some (Some ''ok'')" and b' = "Some (Some ''ok'')"])
       (simp_all add: store_down_def empty_state_def emit_def)
  have fl: "files store_down ''dune.json'' = Some [dune]"
    by (simp add: store_down_def shelf_def)
  have s3: "(opened empty_state)\<lparr>stats := (stats (opened empty_state))
              \<lparr>total_books := int (length [dune]),
               start_time := Some (clock store_down (length (events (opened empty_state))))\<rparr>\<rparr> = ?s3"
    by (simp add: opened_def empty_state_def store_down_def emit_def ticking_def)
  have len: "4 \<le> length (events ?s3)"
    by (simp add: opened_def emit_def)
  have lp: "import_loop store_down [dune] (nat 10) 0 ?s3 = ?s4"
    using store_down_import_loop[OF len] by simp
  have pr: "print_final_report store_down ?s4 = (None, ?s5)"
    by (simp add: print_final_report_def Let_def emit_def called_simps opened_def
          empty_state_def init_stats_def)
  have vc: "verify_collections store_down ?s5 = verified ?s5"
    by (rule verify_collections_served[where code = 500 and body = None])
       (simp_all add: store_down_def emit_def called_simps opened_def empty_state_def
          attempts_trace_1)
  have pr': "print_final_report store_down
               (import_loop store_down [dune] (nat 10) 0
                  ((opened empty_state)\<lparr>stats := (stats (opened empty_state))
                     \<lparr>total_books := int (length [dune]),
                      start_time := Some (clock store_down (length (events (opened empty_state))))\<rparr>\<rparr>)) =
             (None, ?s5)"
    unfolding s3 lp by (rule pr)
  have "import_books store_down ''dune.json'' 10 False empty_state =
          (Inr True, verify_collections store_down ?s5)"
    by (rule import_books_steps[OF cs sc fl _ pr']) simp
  then show ?thesis by (simp only: vc)
qed

section \<open>Clearing a collection\<close>

lemma store_delete_page:
  "distinct (map pid coll) \<Longrightarrow> store_delete (map pid (take n coll)) coll = drop n coll"
proof (induction coll arbitrary: n)
  case Nil
  show ?case by (simp add: store_delete_def)
next
  case (Cons p coll)
  show ?case
  proof (cases n)
    case 0
    then show ?thesis by (simp add: store_delete_def)
  next
    case (Suc m)
    from Cons.prems have d: "distinct (map pid coll)" and np: "pid p \<notin> pid ` set coll" by auto
    have other: "pid q \<noteq> pid p" if "q \<in> set coll" for q
      using np that by (metis imageI)
    have "filter (\<lambda>q. pid q \<noteq> pid p \<and> pid q \<notin> pid ` set (take m coll)) coll =
          filter (\<lambda>q. pid q \<notin> pid ` set (take m coll)) coll"
      by (intro filter_cong refl) (simp add: other)
    with Cons.IH[OF d, of m] show ?thesis
      unfolding Suc by (simp add: store_delete_def)
  qed
qed

lemma clear_collection_served:
  assumes scroll: "acknowledged (qdrant env (length (events s)))"
    and dl: "acknowledged (qdrant env (Suc (length (events s))))"
    and ne: "store s c \<noteq> []"
  shows "clear_collection env c s =
           (True,
            (emit (Post_delete c (map pid (take 10000 (store s c)))) (emit (Post_scroll c 10000) s))
              \<lparr>store := (store s)(c := store_delete (map pid (take 10000 (store s c))) (store s c))\<rparr>)"
proof -
  from scroll have q: "qdrant env (length (events s)) = Reply 200 (Some (Some ''ok''))"
    by (simp add: acknowledged_def)
  have sc: "qdrant_scroll env c 10000 s =
              (Reply 200 (Some (map pid (take 10000 (store s c)))), emit (Post_scroll c 10000) s)"
    by (simp add: qdrant_scroll_def q)
  from dl have q2: "qdrant env (Suc (length (events s))) = Reply 200 (Some (Some ''ok''))"
    unfolding acknowledged_def .
  have de: "qdrant_delete env c ids (emit (Post_scroll c 10000) s) =
              (Reply 200 (Some (Some ''ok'')),
               (emit (Post_delete c ids) (emit (Post_scroll c 10000) s))
                 \<lparr>store := (store s)(c := store_delete ids (store s c))\<rparr>)" for ids
    by (simp add: qdrant_delete_def q2 Let_def acknowledged_def emit_def)
  from ne have "map pid (take 10000 (store s c)) \<noteq> []" by (cases "store s c") auto
  then show ?thesis
    by (simp add: clear_collection_def sc de)
qed

lemma clear_collection_empty:
  assumes scroll: "acknowledged (qdrant env (length (events s)))"
    and e: "store s c = []"
  shows "clear_collection env c s = (True, emit (Post_scroll c 10000) s)"
proof -
  from scroll have q: "qdrant env (length (events s)) = Reply 200 (Some (Some ''ok''))"
    by (simp add: acknowledged_def)
  show ?thesis by (simp add: clear_collection_def qdrant_scroll_def q e)
qed

lemma clear_collection_small:
  assumes "acknowledged (qdrant env (length (events s)))"
    and "acknowledged (qdrant env (Suc (length (events s))))"
    and "distinct (map pid (store s c))" and "length (store s c) \<le> 10000"
  shows "fst (clear_collection env c s) \<and> store (snd (clear_collection env c s)) c = []"
proof (cases "store s c = []")
  case True
  with clear_collection_empty[OF assms(1) True] show ?thesis by (simp add: emit_def)
next
  case False
  have "store_delete (map pid (take 10000 (store s c))) (store s c) = drop 10000 (store s c)"
    by (rule store_delete_page[OF assms(3)])
  with assms(4) have "store_delete (map pid (take 10000 (store s c))) (store s c) = []" by simp
  then show ?thesis unfolding clear_collection_served[OF assms(1,2) False] by simp
qed

lemma distinct_numbered: "distinct (map pid (map numbered [0..<n]))"
  by (simp add: distinct_map inj_on_def numbered_def comp_def)

text \<open>
  Claim C5 at a failing input: a tag collection of 10001 points and a store that serves
  every request. \<open>clear_collection\<close> asks for one page of 10000 identifiers, deletes them
  and returns \<open>True\<close>, and the collection still holds a point.
\<close>

theorem clear_collection_leaves_points:
  "length (store crowded ''tags_vecs'') = 10001 \<and>
   fst (clear_collection (healthy []) ''tags_vecs'' crowded) = True \<and>
   store (snd (clear_collection (healthy []) ''tags_vecs'' crowded)) ''tags_vecs'' = [numbered 10000]"
proof -
  have st: "store crowded ''tags_vecs'' = map numbered [0..<10001]"
    by (simp add: crowded_def)
  have ne: "store crowded ''tags_vecs'' \<noteq> []" unfolding st by simp
  have "store_delete (map pid (take 10000 (map numbered [0..<10001]))) (map numbered [0..<10001]) =
        drop 10000 (map numbered [0..<10001])"
    by (rule store_delete_page[OF distinct_numbered])
  also have "\<dots> = [numbered 10000]"
    by (simp add: drop_map)
  finally have del: "store_delete (map pid (take 10000 (map numbered [0..<10001]))) (map numbered [0..<10001]) =
        [numbered 10000]" .
  show ?thesis
    unfolding clear_collection_served[OF healthy_ack healthy_ack ne]
    by (simp add: st del)
qed

section \<open>Running the import again\<close>

subsection \<open>What the steps around the loop leave alone\<close>










subsection \<open>The counters of a run without failure\<close>








subsection \<open>Two runs over one book\<close>














end
